theory Spec2Isabelle
  imports Complex_Main "HOL-Library.Monad_Syntax"
begin

section \<open>JavaScript values\<close>

text \<open>
  A JavaScript number is a finite value or one of the three non-finite ones. A finite
  value is a real number (every double is one). The engine, the scheduler and the
  validator compare, clamp and interpolate numbers, and their arithmetic is taken as
  exact; the arithmetic of the tween presets, of which exact results are asked, is
  modelled with its rounding.
\<close>

datatype number = Finite real | NaN | PosInfinity | NegInfinity

text \<open>
  Untyped data as the code receives it (\<open>unknown\<close>, \<open>any\<close>, parsed JSON). An object is
  the list of its own enumerable properties in enumeration order; \<open>JUndefined\<close> is what
  reading an absent property gives.
\<close>

datatype json =
    JUndefined
  | JNull
  | JBool bool
  | JNum number
  | JStr string
  | JArr "json list"
  | JObj "(string \<times> json) list"

type_synonym fields = "(string \<times> json) list"

definition getOwn :: "fields \<Rightarrow> string \<Rightarrow> json" where
  "getOwn fs k = (case map_of fs k of None \<Rightarrow> JUndefined | Some v \<Rightarrow> v)"

subsection \<open>Strings\<close>

text \<open>
  Strings are lists of 8-bit characters. \<open>trim\<close> strips the white space and line
  terminators of that range from both ends; \<open>toLowerCase\<close> maps the ASCII capitals.
\<close>

definition isWhiteSpace :: "char \<Rightarrow> bool" where
  "isWhiteSpace c = (c \<in> set [CHR '' '', CHR 0x09, CHR 0x0A, CHR 0x0B, CHR 0x0C, CHR 0x0D, CHR 0xA0])"

definition trim :: "string \<Rightarrow> string" where
  "trim s = rev (dropWhile isWhiteSpace (rev (dropWhile isWhiteSpace s)))"

definition toLowerChar :: "char \<Rightarrow> char" where
  "toLowerChar c =
     (case map_of (zip ''ABCDEFGHIJKLMNOPQRSTUVWXYZ'' ''abcdefghijklmnopqrstuvwxyz'') c of
        Some l \<Rightarrow> l
      | None \<Rightarrow> c)"

definition toLowerCase :: "string \<Rightarrow> string" where
  "toLowerCase s = map toLowerChar s"

fun str_includes :: "string \<Rightarrow> string \<Rightarrow> bool" where
  "str_includes [] sub = (sub = [])"
| "str_includes (c # cs) sub = (take (length sub) (c # cs) = sub \<or> str_includes cs sub)"

section \<open>The motion engine (motionEngine.ts)\<close>

subsection \<open>Numeric helpers\<close>

definition clamp :: "real \<Rightarrow> real \<Rightarrow> real \<Rightarrow> real" where
  "clamp v lo hi = min hi (max lo v)"

definition lerp :: "real \<Rightarrow> real \<Rightarrow> real \<Rightarrow> real" where
  "lerp from to t = from + (to - from) * t"

definition easeOutCubic :: "real \<Rightarrow> real" where
  "easeOutCubic t = 1 - (1 - t) ^ 3"

definition easeInOutQuad :: "real \<Rightarrow> real" where
  "easeInOutQuad t = (if t < 1 / 2 then 2 * t * t else 1 - ((- 2 * t + 2) ^ 2) / 2)"

definition Math_round :: "real \<Rightarrow> real" where
  "Math_round v = of_int \<lfloor>v + 1 / 2\<rfloor>"

subsection \<open>Bindings\<close>

definition keyAliases :: "string \<Rightarrow> string list" where
  "keyAliases key =
     (if key = ''ArrowLeft'' then [''LeftArrow'']
      else if key = ''LeftArrow'' then [''ArrowLeft'']
      else if key = ''ArrowRight'' then [''RightArrow'']
      else if key = ''RightArrow'' then [''ArrowRight'']
      else [])"

text \<open>\<open>button\<close> is optional: \<open>None\<close> is the absent field; the empty string is falsy too.\<close>

definition normalizeMouseBinding :: "string option \<Rightarrow> string option" where
  "normalizeMouseBinding button =
     (case button of
        None \<Rightarrow> None
      | Some b \<Rightarrow>
          if b = [] then None
          else let normalized = toLowerCase b in
            if str_includes normalized ''left'' then Some ''MouseLeft''
            else if str_includes normalized ''right'' then Some ''MouseRight''
            else if str_includes normalized ''middle'' then Some ''MouseMiddle''
            else None)"

fun firstMapped :: "fields \<Rightarrow> string list \<Rightarrow> string option" where
  "firstMapped motionMap [] = None"
| "firstMapped motionMap (key # keys) =
     (case getOwn motionMap key of
        JStr mapped \<Rightarrow>
          if length (trim mapped) > 0 then Some (trim mapped) else firstMapped motionMap keys
      | _ \<Rightarrow> firstMapped motionMap keys)"

definition resolveBindingMotion :: "fields \<Rightarrow> string \<Rightarrow> string option" where
  "resolveBindingMotion motionMap binding = firstMapped motionMap (binding # keyAliases binding)"

subsection \<open>Idle candidates\<close>

record IdleCandidate =
  motion :: string
  weight :: real

text \<open>
  \<open>candidate.motion ?? candidate.name\<close>: the name is read only when the motion is null
  or undefined. An array is an object without either property.
\<close>

definition candidateOf :: "json \<Rightarrow> IdleCandidate list" where
  "candidateOf item =
     (case item of
        JStr s \<Rightarrow> if length (trim s) > 0 then [\<lparr>motion = trim s, weight = 1\<rparr>] else []
      | JObj candidate \<Rightarrow>
          (let m = getOwn candidate ''motion'';
               motionRaw = (if m = JNull \<or> m = JUndefined then getOwn candidate ''name'' else m)
           in case motionRaw of
                JStr s \<Rightarrow>
                  if length (trim s) = 0 then []
                  else [\<lparr>motion = trim s,
                         weight = (case getOwn candidate ''weight'' of
                                     JNum (Finite v) \<Rightarrow> clamp v (1 / 100) 100
                                   | _ \<Rightarrow> 1)\<rparr>]
              | _ \<Rightarrow> [])
      | _ \<Rightarrow> [])"

definition parseIdleCandidates :: "fields \<Rightarrow> IdleCandidate list" where
  "parseIdleCandidates motionMap =
     (case getOwn motionMap ''idle'' of
        JArr raw \<Rightarrow> concat (map candidateOf raw)
      | _ \<Rightarrow> [])"

definition DEFAULT_IDLE_TIMEOUT_MS :: real where
  "DEFAULT_IDLE_TIMEOUT_MS = 8000"

definition resolveIdleTimeout :: "fields \<Rightarrow> real" where
  "resolveIdleTimeout motionMap =
     (case getOwn motionMap ''idleTimeoutMs'' of
        JNum (Finite v) \<Rightarrow> Math_round (clamp v 2000 60000)
      | _ \<Rightarrow> DEFAULT_IDLE_TIMEOUT_MS)"

fun drawTicket :: "real \<Rightarrow> IdleCandidate list \<Rightarrow> string option" where
  "drawTicket ticket [] = None"
| "drawTicket ticket (item # items) =
     (if ticket - weight item \<le> 0 then Some (motion item)
      else drawTicket (ticket - weight item) items)"

text \<open>\<open>random\<close> is the value \<open>Math.random()\<close> returns in this call.\<close>

definition pickWeightedIdleMotion :: "IdleCandidate list \<Rightarrow> real \<Rightarrow> string option" where
  "pickWeightedIdleMotion candidates random =
     (if length candidates = 0 then None
      else let totalWeight = sum_list (map weight candidates) in
        if totalWeight \<le> 0 then
          (let i = \<lfloor>random * real (length candidates)\<rfloor> in
           if 0 \<le> i \<and> i < int (length candidates) then Some (motion (candidates ! nat i))
           else None)
        else
          (case drawTicket (random * totalWeight) candidates of
             Some m \<Rightarrow> Some m
           | None \<Rightarrow> Some (motion (last candidates))))"

subsection \<open>Engine state and the animation-frame queue\<close>

record Transform =
  scaleX :: real
  scaleY :: real
  rotation :: real
  posX :: real
  posY :: real

text \<open>What the closure \<open>animate\<close> of one fallback tween captures.\<close>

record Animation =
  origin :: Transform
  peak :: Transform
  startAt :: real

record EngineState =
  lastInputAt :: real
  lastIdleAt :: real
  idleTimerId :: int
  fallbackRafId :: "nat option"
  idlePlaying :: bool
  disposed :: bool
  settings :: fields

text \<open>
  One rendering model with its engine state. \<open>registered\<close> says whether
  \<open>engineStateMap\<close> holds a state for the model; \<open>rafQueue\<close> is the browser's list of
  requested animation frames; \<open>console\<close> collects the messages of \<open>console.warn\<close> and
  \<open>console.error\<close>; \<open>dispatches\<close> is a trace of the calls of \<open>playMotionOrFallback\<close>
  (motion name and reason) and \<open>motionCalls\<close> of the calls of \<open>model.motion\<close>.
\<close>

record World =
  model :: Transform
  state :: EngineState
  registered :: bool
  rafQueue :: "(nat \<times> Animation) list"
  nextRafId :: nat
  nextTimerId :: nat
  console :: "string list"
  dispatches :: "(string option \<times> string) list"
  motionCalls :: "string list"

definition requestAnimationFrame :: "World \<Rightarrow> Animation \<Rightarrow> World \<times> nat" where
  "requestAnimationFrame w cb =
     (w\<lparr>rafQueue := rafQueue w @ [(nextRafId w, cb)], nextRafId := Suc (nextRafId w)\<rparr>,
      nextRafId w)"

definition cancelAnimationFrame :: "World \<Rightarrow> nat \<Rightarrow> World" where
  "cancelAnimationFrame w rid = w\<lparr>rafQueue := filter (\<lambda>(i, cb). i \<noteq> rid) (rafQueue w)\<rparr>"

definition setFallbackRafId :: "World \<Rightarrow> nat option \<Rightarrow> World" where
  "setFallbackRafId w v = w\<lparr>state := (state w)\<lparr>fallbackRafId := v\<rparr>\<rparr>"

definition upDuration :: real where "upDuration = 160"
definition downDuration :: real where "downDuration = 220"

definition lerpTransform :: "Transform \<Rightarrow> Transform \<Rightarrow> real \<Rightarrow> Transform" where
  "lerpTransform a b t =
     \<lparr>scaleX = lerp (scaleX a) (scaleX b) t,
      scaleY = lerp (scaleY a) (scaleY b) t,
      rotation = lerp (rotation a) (rotation b) t,
      posX = lerp (posX a) (posX b) t,
      posY = lerp (posY a) (posY b) t\<rparr>"

text \<open>One call of the closure \<open>animate\<close> with the frame time \<open>now\<close>.\<close>

definition animate :: "World \<Rightarrow> Animation \<Rightarrow> real \<Rightarrow> World" where
  "animate w a now =
     (if disposed (state w) then w
      else let elapsed = now - startAt a in
        if elapsed \<le> upDuration then
          (let t = easeOutCubic (clamp (elapsed / upDuration) 0 1);
               w1 = w\<lparr>model := lerpTransform (origin a) (peak a) t\<rparr>;
               (w2, rid) = requestAnimationFrame w1 a
           in setFallbackRafId w2 (Some rid))
        else let downElapsed = elapsed - upDuration in
          if downElapsed \<le> downDuration then
            (let t = easeInOutQuad (clamp (downElapsed / downDuration) 0 1);
                 w1 = w\<lparr>model := lerpTransform (peak a) (origin a) t\<rparr>;
                 (w2, rid) = requestAnimationFrame w1 a
             in setFallbackRafId w2 (Some rid))
          else setFallbackRafId (w\<lparr>model := origin a\<rparr>) None)"

text \<open>
  A rendering frame at time \<open>now\<close>: the callbacks requested before the frame run in
  the order of their requests; what they request runs in the next frame.
\<close>

definition runFrame :: "World \<Rightarrow> real \<Rightarrow> World" where
  "runFrame w now = fold (\<lambda>(rid, a) v. animate v a now) (rafQueue w) (w\<lparr>rafQueue := []\<rparr>)"

text \<open>
  \<open>random\<close> is the value of \<open>Math.random()\<close> and \<open>now\<close> that of \<open>performance.now()\<close>
  in this call.
\<close>

definition triggerFallbackTween :: "World \<Rightarrow> string \<Rightarrow> real \<Rightarrow> real \<Rightarrow> World" where
  "triggerFallbackTween w reason random now =
     (let w1 = w\<lparr>console := console w @ [''[motion-engine] fallback tween: '' @ reason]\<rparr>;
          w2 = (case fallbackRafId (state w1) of
                  Some rid \<Rightarrow> setFallbackRafId (cancelAnimationFrame w1 rid) None
                | None \<Rightarrow> w1);
          orig = model w2;
          direction = (if random > 1 / 2 then 1 else - 1);
          pk = \<lparr>scaleX = scaleX orig * (1 + 8 / 100),
                scaleY = scaleY orig * (1 - 6 / 100),
                rotation = rotation orig + direction * (8 / 100),
                posX = posX orig + direction * 12,
                posY = posY orig - 6\<rparr>;
          (w3, rid) = requestAnimationFrame w2 \<lparr>origin = orig, peak = pk, startAt = now\<rparr>
      in setFallbackRafId w3 (Some rid))"

text \<open>What \<open>await model.motion(name)\<close> yields: a boolean, or a raised failure.\<close>

datatype motion_outcome = Resolved bool | Rejected

text \<open>
  \<open>playMotionOrFallback\<close>, with \<open>runtime\<close> the answer of the model runtime to each
  motion name. The call is taken as one step: nothing else runs while it awaits.
\<close>

definition playMotionOrFallback ::
  "World \<Rightarrow> string option \<Rightarrow> string \<Rightarrow> (string \<Rightarrow> motion_outcome) \<Rightarrow> real \<Rightarrow> real \<Rightarrow> World" where
  "playMotionOrFallback w motionName reason runtime random now =
     (let w0 = w\<lparr>dispatches := dispatches w @ [(motionName, reason)]\<rparr> in
      case motionName of
        None \<Rightarrow> triggerFallbackTween w0 (reason @ '' (no mapping)'') random now
      | Some name \<Rightarrow>
          if name = [] then triggerFallbackTween w0 (reason @ '' (no mapping)'') random now
          else let w1 = w0\<lparr>motionCalls := motionCalls w0 @ [name]\<rparr> in
            (case runtime name of
               Resolved started \<Rightarrow>
                 if \<not> started then
                   triggerFallbackTween
                     (w1\<lparr>console := console w1 @ [''[motion-engine] motion returned false: '' @ name]\<rparr>)
                     (reason @ '' ('' @ name @ '' not started)'') random now
                 else w1
             | Rejected \<Rightarrow>
                 triggerFallbackTween
                   (w1\<lparr>console := console w1 @ [''[motion-engine] motion failed: '' @ name]\<rparr>)
                   (reason @ '' ('' @ name @ '' failed)'') random now))"

text \<open>
  \<open>maybePlayIdle\<close> at the wall-clock time \<open>dateNow\<close>; \<open>pick\<close> and \<open>random\<close> are the two
  values of \<open>Math.random()\<close> it may consume.
\<close>

definition maybePlayIdle ::
  "World \<Rightarrow> real \<Rightarrow> real \<Rightarrow> (string \<Rightarrow> motion_outcome) \<Rightarrow> real \<Rightarrow> real \<Rightarrow> World" where
  "maybePlayIdle w dateNow pick runtime random now =
     (if disposed (state w) \<or> idlePlaying (state w) then w
      else let motionMap = settings (state w);
               idleTimeout = resolveIdleTimeout motionMap in
        if dateNow - lastInputAt (state w) < idleTimeout then w
        else if dateNow - lastIdleAt (state w) < idleTimeout then w
        else
          (let w1 = w\<lparr>state := (state w)\<lparr>idlePlaying := True, lastIdleAt := dateNow\<rparr>\<rparr>;
               idleMotion = pickWeightedIdleMotion (parseIdleCandidates motionMap) pick;
               w2 = playMotionOrFallback w1 idleMotion ''idle'' runtime random now
           in w2\<lparr>state := (state w2)\<lparr>idlePlaying := False\<rparr>\<rparr>))"

definition IDLE_CHECK_INTERVAL_MS :: real where
  "IDLE_CHECK_INTERVAL_MS = 1000"

definition ensureEngineState :: "World \<Rightarrow> fields \<Rightarrow> real \<Rightarrow> World" where
  "ensureEngineState w newSettings dateNow =
     (if registered w then w\<lparr>state := (state w)\<lparr>settings := newSettings\<rparr>\<rparr>
      else w\<lparr>state := \<lparr>lastInputAt = dateNow, lastIdleAt = 0, idleTimerId = int (nextTimerId w),
                         fallbackRafId = None, idlePlaying = False, disposed = False,
                         settings = newSettings\<rparr>,
              nextTimerId := Suc (nextTimerId w),
              registered := True\<rparr>)"

definition isUserInputEvent :: "string \<Rightarrow> bool" where
  "isUserInputEvent eventType =
     (eventType = ''KeyPress'' \<or> eventType = ''KeyRelease'' \<or> eventType = ''MouseMove''
      \<or> eventType = ''ButtonPress'' \<or> eventType = ''ButtonRelease'')"

record MotionEngineInputEvent =
  type :: string
  keyCode :: "string option"
  button :: "string option"
  ev_x :: "number option"
  ev_y :: "number option"
  timestamp :: "number option"

definition handleInput ::
  "MotionEngineInputEvent \<Rightarrow> World \<Rightarrow> fields \<Rightarrow> real \<Rightarrow> (string \<Rightarrow> motion_outcome)
     \<Rightarrow> real \<Rightarrow> real \<Rightarrow> World" where
  "handleInput event w motionMap dateNow runtime random perfNow =
     (let w1 = ensureEngineState w motionMap dateNow;
          w2 = w1\<lparr>state := (state w1)\<lparr>settings := motionMap\<rparr>\<rparr>;
          now = (case timestamp event of Some (Finite t) \<Rightarrow> t | _ \<Rightarrow> dateNow);
          w3 = (if isUserInputEvent (type event)
                then w2\<lparr>state := (state w2)\<lparr>lastInputAt := now\<rparr>\<rparr> else w2)
      in
        if type event = ''KeyPress'' then
          (case map_option trim (keyCode event) of
             None \<Rightarrow> triggerFallbackTween w3 ''keypress missing keyCode'' random perfNow
           | Some kc \<Rightarrow>
               if kc = [] then triggerFallbackTween w3 ''keypress missing keyCode'' random perfNow
               else playMotionOrFallback w3 (resolveBindingMotion motionMap kc)
                      (''keypress:'' @ kc) runtime random perfNow)
        else if type event = ''ButtonPress'' then
          (let mouseBinding = normalizeMouseBinding (button event);
               motionName = (case mouseBinding of
                               Some b \<Rightarrow> resolveBindingMotion motionMap b
                             | None \<Rightarrow> None)
           in playMotionOrFallback w3 motionName
                (''mouse:'' @ (case mouseBinding of
                                 Some b \<Rightarrow> b
                               | None \<Rightarrow> (case button event of Some b \<Rightarrow> b | None \<Rightarrow> ''unknown'')))
                runtime random perfNow)
        else w3)"

text \<open>
  A fallback tween has just been started: the frame requested last is the tween's, the
  state records its id, the tween starts from the model's present transform, and the
  last console message is the fallback warning carrying the reason.
\<close>

definition fallbackStarted :: "World \<Rightarrow> string \<Rightarrow> bool" where
  "fallbackStarted w reason =
     (rafQueue w \<noteq> [] \<and>
      fallbackRafId (state w) = Some (fst (last (rafQueue w))) \<and>
      origin (snd (last (rafQueue w))) = model w \<and>
      console w \<noteq> [] \<and>
      last (console w) = ''[motion-engine] fallback tween: '' @ reason)"

text \<open>
  The reaction is seen: in the rendering frame at time \<open>t\<close> the model is drawn above the
  place where it rests in \<open>w\<close> (its \<open>position.y\<close> is smaller).
\<close>

definition visibleReaction :: "World \<Rightarrow> real \<Rightarrow> bool" where
  "visibleReaction w t = (posY (model (runFrame w t)) < posY (model w))"

text \<open>The default motion map of settings.ts and a freshly initialised engine.\<close>

definition DEFAULT_MOTION_MAP :: fields where
  "DEFAULT_MOTION_MAP =
     [(''KeyA'', JStr ''tap_left''), (''LeftArrow'', JStr ''tap_left''),
      (''ArrowLeft'', JStr ''tap_left''), (''KeyD'', JStr ''tap_right''),
      (''RightArrow'', JStr ''tap_right''), (''ArrowRight'', JStr ''tap_right''),
      (''MouseLeft'', JStr ''tap''), (''idle'', JArr [JStr ''idle_1'', JStr ''idle_2'']),
      (''idleTimeoutMs'', JNum (Finite 8000))]"

definition restWorld :: World where
  "restWorld =
     \<lparr>model = \<lparr>scaleX = 1, scaleY = 1, rotation = 0, posX = 0, posY = 0\<rparr>,
      state = \<lparr>lastInputAt = 0, lastIdleAt = 0, idleTimerId = 1, fallbackRafId = None,
               idlePlaying = False, disposed = False, settings = DEFAULT_MOTION_MAP\<rparr>,
      registered = True, rafQueue = [], nextRafId = 1, nextTimerId = 2, console = [],
      dispatches = [], motionCalls = []\<rparr>"

definition keyPress :: "string \<Rightarrow> real \<Rightarrow> MotionEngineInputEvent" where
  "keyPress code t =
     \<lparr>type = ''KeyPress'', keyCode = Some code, button = None, ev_x = None, ev_y = None,
      timestamp = Some (Finite t)\<rparr>"

section \<open>The frame scheduler (PetStage.tsx)\<close>

text \<open>
  What a flush hands on, in order: \<open>handleInput(payload, model, ...)\<close> and
  \<open>handleMouseMove(x, y)\<close>.
\<close>

datatype stage_call =
    HandleInput MotionEngineInputEvent
  | HandleMouseMove number number

text \<open>
  The refs of the component: the queue of discrete events, the pending pointer sample,
  the id of the requested input frame, and whether \<open>modelRef.current\<close> holds a model.
  \<open>requested\<close> counts the calls of \<open>window.requestAnimationFrame\<close>; \<open>calls\<close> is the
  trace of what the flushes handed on.
\<close>

record PetStage =
  pendingDiscreteInput :: "MotionEngineInputEvent list"
  pendingMouseMove :: "MotionEngineInputEvent option"
  inputFrame :: "nat option"
  modelLoaded :: bool
  requested :: nat
  calls :: "stage_call list"

definition QUEUE_CAP :: nat where
  "QUEUE_CAP = 120"

definition scheduleInputFrame :: "PetStage \<Rightarrow> PetStage" where
  "scheduleInputFrame s =
     (if inputFrame s \<noteq> None then s
      else s\<lparr>inputFrame := Some (Suc (requested s)), requested := Suc (requested s)\<rparr>)"

text \<open>The listener of \<open>global-input\<close>.\<close>

definition onGlobalInput :: "PetStage \<Rightarrow> MotionEngineInputEvent \<Rightarrow> PetStage" where
  "onGlobalInput s payload =
     (if type payload = ''MouseMove'' then
        scheduleInputFrame (s\<lparr>pendingMouseMove := Some payload\<rparr>)
      else
        (let shifted = (if length (pendingDiscreteInput s) \<ge> QUEUE_CAP
                        then tl (pendingDiscreteInput s) else pendingDiscreteInput s)
         in scheduleInputFrame (s\<lparr>pendingDiscreteInput := shifted @ [payload]\<rparr>)))"

definition mouseCalls :: "MotionEngineInputEvent \<Rightarrow> stage_call list" where
  "mouseCalls mousePayload =
     HandleInput mousePayload #
     (case (ev_x mousePayload, ev_y mousePayload) of
        (Some px, Some py) \<Rightarrow> [HandleMouseMove px py]
      | _ \<Rightarrow> [])"

definition flushInputInAnimationFrame :: "PetStage \<Rightarrow> PetStage" where
  "flushInputInAnimationFrame s =
     (let s1 = s\<lparr>inputFrame := None\<rparr> in
      if \<not> modelLoaded s1 then s1\<lparr>pendingDiscreteInput := [], pendingMouseMove := None\<rparr>
      else
        (let discreteEvents = pendingDiscreteInput s1;
             s2 = s1\<lparr>pendingDiscreteInput := [],
                     calls := calls s1 @ map HandleInput discreteEvents\<rparr>;
             s3 = s2\<lparr>pendingMouseMove := None\<rparr>
         in case pendingMouseMove s2 of
              None \<Rightarrow> s3
            | Some mousePayload \<Rightarrow> s3\<lparr>calls := calls s3 @ mouseCalls mousePayload\<rparr>))"

text \<open>
  What happens to the component: an input event arrives, or the browser renders a
  frame, which runs the flush when one was requested.
\<close>

datatype stage_step = Arrive MotionEngineInputEvent | Frame

fun stageStep :: "PetStage \<Rightarrow> stage_step \<Rightarrow> PetStage" where
  "stageStep s (Arrive payload) = onGlobalInput s payload"
| "stageStep s Frame = (if inputFrame s = None then s else flushInputInAnimationFrame s)"

definition runStage :: "PetStage \<Rightarrow> stage_step list \<Rightarrow> PetStage" where
  "runStage s steps = foldl stageStep s steps"

definition initialStage :: PetStage where
  "initialStage =
     \<lparr>pendingDiscreteInput = [], pendingMouseMove = None, inputFrame = None,
      modelLoaded = True, requested = 0, calls = []\<rparr>"

definition isDiscrete :: "MotionEngineInputEvent \<Rightarrow> bool" where
  "isDiscrete payload = (type payload \<noteq> ''MouseMove'')"

definition lastMouseMove ::
  "MotionEngineInputEvent option \<Rightarrow> MotionEngineInputEvent list \<Rightarrow> MotionEngineInputEvent option" where
  "lastMouseMove pending payloads =
     (case filter (\<lambda>p. \<not> isDiscrete p) payloads of
        [] \<Rightarrow> pending
      | m # ms \<Rightarrow> Some (last (m # ms)))"

definition mouseMove :: "real \<Rightarrow> real \<Rightarrow> real \<Rightarrow> MotionEngineInputEvent" where
  "mouseMove px py t =
     \<lparr>type = ''MouseMove'', keyCode = None, button = None, ev_x = Some (Finite px),
      ev_y = Some (Finite py), timestamp = Some (Finite t)\<rparr>"

definition fullStage :: PetStage where
  "fullStage = initialStage\<lparr>pendingDiscreteInput := replicate 120 (keyPress ''KeyA'' 0)\<rparr>"

section \<open>The configuration model (motion/config.ts)\<close>

datatype TweenPreset = Bounce | Shake | Nod

text \<open>
  The tagged union \<open>InputAction\<close>. The arguments are the fields in the order of the
  type declarations: \<open>group\<close>, \<open>index\<close>, \<open>priority\<close>, \<open>cooldownMs\<close> of a motion;
  \<open>name\<close>, \<open>cooldownMs\<close> of an expression; \<open>preset\<close>, \<open>strength\<close>, \<open>cooldownMs\<close> of a
  tween; \<open>ruleId\<close>, \<open>cooldownMs\<close> of a combo reference. An optional field is \<open>None\<close>
  when it is absent or \<open>undefined\<close>.
\<close>

datatype InputAction =
    MotionAction string "number option" "number option" "number option"
  | ExpressionAction string "number option"
  | TweenAction TweenPreset "number option" "number option"
  | ComboAction string "number option"

record ComboRule =
  comboId :: string
  sequence :: "string list"
  withinMs :: number
  ruleAction :: InputAction
  ruleCooldownMs :: "number option"

record IdleEntry =
  entryAction :: InputAction
  entryWeight :: "number option"

record IdleConfig =
  enabled :: bool
  afterMs :: number
  intervalMs :: "number option"
  actions :: "IdleEntry list"

text \<open>
  \<open>version\<close> has the literal type \<open>1\<close> and is not a field of the record. The key map
  lists its entries in the order of their first insertion.
\<close>

record MotionConfig =
  keyMap :: "(string \<times> InputAction) list"
  comboRules :: "ComboRule list"
  idle :: IdleConfig

definition defaultMotionConfig :: MotionConfig where
  "defaultMotionConfig =
     \<lparr>keyMap =
        [(''KeyA'', MotionAction ''tap_left'' (Some (Finite 0)) (Some (Finite 2)) (Some (Finite 120))),
         (''KeyD'', MotionAction ''tap_right'' (Some (Finite 0)) (Some (Finite 2)) (Some (Finite 120))),
         (''MouseLeft'', TweenAction Bounce (Some (Finite (8 / 10))) (Some (Finite 80))),
         (''KeyS'', ExpressionAction ''smile'' (Some (Finite 800))),
         (''KeyQ'', ComboAction ''left-right-burst'' (Some (Finite 200)))],
      comboRules =
        [\<lparr>comboId = ''left-right-burst'', sequence = [''KeyA'', ''KeyD''],
          withinMs = Finite 250,
          ruleAction = MotionAction ''combo_burst'' None (Some (Finite 3)) (Some (Finite 500)),
          ruleCooldownMs = Some (Finite 700)\<rparr>],
      idle =
        \<lparr>enabled = True, afterMs = Finite 8000, intervalMs = Some (Finite 6000),
         actions =
           [\<lparr>entryAction = MotionAction ''idle_1'' None None None, entryWeight = Some (Finite 3)\<rparr>,
            \<lparr>entryAction = MotionAction ''idle_2'' None None None, entryWeight = Some (Finite 2)\<rparr>,
            \<lparr>entryAction = ExpressionAction ''blink'' None, entryWeight = Some (Finite 1)\<rparr>]\<rparr>\<rparr>"

section \<open>The combo detector\<close>

text \<open>
  Modelled from the spec: the combo detector of section 4.3. The repository declares
  the type \<open>ComboRule\<close> and validates combo rules, but holds no code that matches them
  against the input. The buffer lists the recent discrete inputs with their timestamps,
  oldest first. A rule matches when the tail of the buffer, read most-recent-first,
  equals the rule's sequence read most-recent-first, and the timestamps of the first
  and the last matched event are at most \<open>withinMs\<close> apart.
\<close>

definition comboMatches :: "ComboRule \<Rightarrow> (string \<times> real) list \<Rightarrow> bool" where
  "comboMatches rule buffer =
     (let recent = take (length (sequence rule)) (rev buffer) in
      recent \<noteq> [] \<and>
      map fst recent = rev (sequence rule) \<and>
      (case withinMs rule of
         Finite w \<Rightarrow> snd (hd recent) - snd (last recent) \<le> w
       | _ \<Rightarrow> False))"

text \<open>
  Modelled from the spec: the rules are tested in the order of the configuration and
  the first match wins.
\<close>

fun firstMatch :: "ComboRule list \<Rightarrow> (string \<times> real) list \<Rightarrow> ComboRule option" where
  "firstMatch [] buffer = None"
| "firstMatch (rule # rules) buffer =
     (if comboMatches rule buffer then Some rule else firstMatch rules buffer)"

text \<open>
  Modelled from the spec: one discrete input. It is appended to the buffer, which keeps
  its \<open>cap\<close> most recent entries; a matching rule fires and clears the buffer, otherwise
  the buffer is retained. The result is the rule that fired, if any, and the new buffer.
  The cooldown that may suppress the dispatch of a fired rule is not part of this step.
\<close>

definition comboStep ::
  "ComboRule list \<Rightarrow> nat \<Rightarrow> (string \<times> real) list \<Rightarrow> string \<times> real
     \<Rightarrow> ComboRule option \<times> (string \<times> real) list" where
  "comboStep rules cap buffer input =
     (let appended = buffer @ [input];
          bounded = drop (length appended - cap) appended
      in case firstMatch rules bounded of
           Some rule \<Rightarrow> (Some rule, [])
         | None \<Rightarrow> (None, bounded))"

definition burstRule :: ComboRule where
  "burstRule =
     \<lparr>comboId = ''left-right-burst'', sequence = [''KeyA'', ''KeyD''], withinMs = Finite 250,
      ruleAction = MotionAction ''combo_burst'' None (Some (Finite 3)) (Some (Finite 500)),
      ruleCooldownMs = Some (Finite 700)\<rparr>"

section \<open>The tween presets (motion/tweenPresets.ts)\<close>

subsection \<open>Double-precision arithmetic\<close>

text \<open>
  The spec asks of the presets that they give back exactly the original transform, so
  the arithmetic of this module is modelled with its rounding. A finite double is a real
  number \<open>m * 2 ^ (e - 52)\<close> with an integer \<open>m\<close> of magnitude below \<open>2 ^ 53\<close> and
  \<open>- 1022 \<le> e\<close>. The result of an operation is the exact result rounded to the nearest
  double, a tie going to the even significand (\<open>fl\<close>); below \<open>2 ^ (- 1022)\<close> the doubles
  are \<open>2 ^ (- 1074)\<close> apart. The exponent has no upper limit here: an operation that
  overflows to \<open>Infinity\<close> in the code has a finite result in the model.
\<close>

definition roundTiesToEven :: "real \<Rightarrow> int" where
  "roundTiesToEven x =
     (let f = \<lfloor>x\<rfloor>; r = x - of_int f in
      if r < 1 / 2 then f
      else if 1 / 2 < r then f + 1
      else if even f then f else f + 1)"

definition ulp :: "real \<Rightarrow> real" where
  "ulp x = 2 powr (of_int (max \<lfloor>log 2 \<bar>x\<bar>\<rfloor> (- 1022)) - 52)"

definition fl :: "real \<Rightarrow> real" where
  "fl x = (if x = 0 then 0 else of_int (roundTiesToEven (x / ulp x)) * ulp x)"

text \<open>The operators \<open>+\<close>, \<open>-\<close>, \<open>*\<close> and \<open>/\<close> on doubles.\<close>

definition fadd :: "real \<Rightarrow> real \<Rightarrow> real" where
  "fadd a b = fl (a + b)"

definition fsub :: "real \<Rightarrow> real \<Rightarrow> real" where
  "fsub a b = fl (a - b)"

definition fmul :: "real \<Rightarrow> real \<Rightarrow> real" where
  "fmul a b = fl (a * b)"

definition fdiv :: "real \<Rightarrow> real \<Rightarrow> real" where
  "fdiv a b = fl (a / b)"

text \<open>
  \<open>Math.PI\<close> is the double nearest to \<open>\<pi>\<close>, \<open>884279719003555 / 2 ^ 48\<close>. \<open>Math.sin\<close> is
  taken as the sine rounded to the nearest double.
\<close>

definition Math_PI :: real where
  "Math_PI = 884279719003555 / 281474976710656"

definition Math_sin :: "real \<Rightarrow> real" where
  "Math_sin x = fl (sin x)"

definition isDouble :: "real \<Rightarrow> bool" where
  "isDouble x = (fl x = x)"

text \<open>The partial sums of the series of the inverse tangent.\<close>

definition arctanTerms :: "real \<Rightarrow> nat \<Rightarrow> real" where
  "arctanTerms x n = (\<Sum>i<n. (- 1) ^ i * (1 / real (i * 2 + 1) * x ^ (i * 2 + 1)))"

subsection \<open>The presets\<close>

definition getDuration :: "TweenPreset \<Rightarrow> real" where
  "getDuration preset = (if preset = Bounce then 340 else if preset = Shake then 260 else 320)"

definition applyFrame :: "TweenPreset \<Rightarrow> real \<Rightarrow> real \<Rightarrow> Transform \<Rightarrow> Transform" where
  "applyFrame preset t strength orig =
     (if preset = Bounce then
        (let lift = fmul (fmul (Math_sin (fmul t Math_PI)) 16) strength;
             squash = fsub 1 (fmul (fmul (Math_sin (fmul t Math_PI)) (fl (8 / 100))) strength);
             stretch = fadd 1 (fmul (fmul (Math_sin (fmul t Math_PI)) (fl (6 / 100))) strength);
             tilt = fmul (fmul (Math_sin (fmul t Math_PI)) (fl (3 / 100))) strength
         in \<lparr>scaleX = fmul (scaleX orig) stretch,
             scaleY = fmul (scaleY orig) squash,
             rotation = fadd (rotation orig) tilt,
             posX = posX orig,
             posY = fsub (posY orig) lift\<rparr>)
      else if preset = Shake then
        (let damp = fsub 1 t;
             wave = Math_sin (fmul (fmul t Math_PI) 10);
             waveRot = Math_sin (fmul (fmul t Math_PI) 8)
         in \<lparr>scaleX = fmul (scaleX orig)
                        (fadd 1 (fmul (fmul (fmul \<bar>wave\<bar> (fl (2 / 100))) strength) damp)),
             scaleY = fmul (scaleY orig)
                        (fsub 1 (fmul (fmul (fmul \<bar>wave\<bar> (fl (2 / 100))) strength) damp)),
             rotation = fadd (rotation orig)
                          (fmul (fmul (fmul waveRot (fl (8 / 100))) strength) damp),
             posX = fadd (posX orig) (fmul (fmul (fmul wave 14) strength) damp),
             posY = posY orig\<rparr>)
      else
        (let damp = fsub 1 t;
             wave = Math_sin (fmul (fmul t Math_PI) 2);
             lift = fmul (fmul (fmul (max 0 wave) 7) strength) damp
         in \<lparr>scaleX = scaleX orig,
             scaleY = scaleY orig,
             rotation = fadd (rotation orig)
                          (fmul (fmul (fmul wave (fl (14 / 100))) strength) damp),
             posX = posX orig,
             posY = fadd (posY orig) lift\<rparr>))"

text \<open>
  The strength \<open>applyTweenPreset\<close> works with: the raw strength clamped to
  \<open>[0.05, 3]\<close> when it is a finite number, else 1. The parameter defaults to 1.
\<close>

definition resolveStrength :: "number option \<Rightarrow> real" where
  "resolveStrength rawStrength =
     (case rawStrength of
        None \<Rightarrow> clamp 1 (fl (5 / 100)) 3
      | Some (Finite v) \<Rightarrow> clamp v (fl (5 / 100)) 3
      | Some _ \<Rightarrow> 1)"

record PointLike =
  pt_x :: number
  pt_y :: number

record TweenTarget =
  position :: "PointLike option"
  scale :: "PointLike option"
  targetRotation :: "number option"

definition readPoint :: "PointLike option \<Rightarrow> real \<Rightarrow> real \<Rightarrow> real \<times> real" where
  "readPoint point fallbackX fallbackY =
     (case point of
        None \<Rightarrow> (fallbackX, fallbackY)
      | Some p \<Rightarrow>
          (case (pt_x p, pt_y p) of
             (Finite a, Finite b) \<Rightarrow> (a, b)
           | _ \<Rightarrow> (fallbackX, fallbackY)))"

text \<open>
  \<open>writePoint\<close> stores through \<open>point.set\<close> when the point has one and by assignment
  otherwise; both leave the two coordinates in the point.
\<close>

definition writePoint :: "PointLike option \<Rightarrow> real \<Rightarrow> real \<Rightarrow> PointLike option" where
  "writePoint point a b = map_option (\<lambda>p. p\<lparr>pt_x := Finite a, pt_y := Finite b\<rparr>) point"

definition writeTransform :: "TweenTarget \<Rightarrow> Transform \<Rightarrow> TweenTarget" where
  "writeTransform target v =
     target\<lparr>position := writePoint (position target) (posX v) (posY v),
            scale := writePoint (scale target) (scaleX v) (scaleY v),
            targetRotation := (case targetRotation target of
                                 Some r \<Rightarrow> Some (Finite (rotation v))
                               | None \<Rightarrow> None)\<rparr>"

definition readOrigin :: "TweenTarget \<Rightarrow> Transform" where
  "readOrigin target =
     (let originPosition = readPoint (position target) 0 0;
          originScale = readPoint (scale target) 1 1;
          originRotation = (case targetRotation target of Some (Finite r) \<Rightarrow> r | _ \<Rightarrow> 0)
      in \<lparr>scaleX = fst originScale, scaleY = snd originScale, rotation = originRotation,
          posX = fst originPosition, posY = snd originPosition\<rparr>)"

text \<open>
  An \<open>ActiveTween\<close> object; its closure \<open>restore\<close> writes back the origin it captured.
\<close>

record ActiveTween =
  rafId :: int
  cancelled :: bool
  restoreOrigin :: Transform

text \<open>What the closure \<open>tick\<close> captures; \<open>tickActive\<close> refers to its \<open>ActiveTween\<close>.\<close>

record Tick =
  tickActive :: nat
  tickPreset :: TweenPreset
  tickStrength :: real
  tickOrigin :: Transform
  startedAt :: real
  duration :: real

text \<open>
  One target with its entry in \<open>activeTweens\<close> (a reference into \<open>tweens\<close>, the
  \<open>ActiveTween\<close> objects created so far) and the browser's requested frames.
\<close>

record TweenWorld =
  target :: TweenTarget
  tweens :: "ActiveTween list"
  activeTweens :: "nat option"
  tickQueue :: "(nat \<times> Tick) list"
  nextTickId :: nat

definition cancelTick :: "TweenWorld \<Rightarrow> int \<Rightarrow> TweenWorld" where
  "cancelTick tw rid = tw\<lparr>tickQueue := filter (\<lambda>(i, cb). int i \<noteq> rid) (tickQueue tw)\<rparr>"

definition requestTick :: "TweenWorld \<Rightarrow> Tick \<Rightarrow> TweenWorld" where
  "requestTick tw cb =
     tw\<lparr>tickQueue := tickQueue tw @ [(nextTickId tw, cb)],
        nextTickId := Suc (nextTickId tw),
        tweens := (tweens tw)[tickActive cb :=
                     (tweens tw ! tickActive cb)\<lparr>rafId := int (nextTickId tw)\<rparr>]\<rparr>"

definition cancelActiveTween :: "TweenWorld \<Rightarrow> TweenWorld" where
  "cancelActiveTween tw =
     (case activeTweens tw of
        None \<Rightarrow> tw
      | Some r \<Rightarrow>
          (let tw1 = tw\<lparr>tweens := (tweens tw)[r := (tweens tw ! r)\<lparr>cancelled := True\<rparr>]\<rparr>;
               tw2 = cancelTick tw1 (rafId (tweens tw1 ! r));
               tw3 = tw2\<lparr>target := writeTransform (target tw2) (restoreOrigin (tweens tw2 ! r))\<rparr>
           in tw3\<lparr>activeTweens := None\<rparr>))"

text \<open>
  \<open>applyTweenPreset\<close> on an existing target, with \<open>now\<close> the value of
  \<open>performance.now()\<close>. The writes to the target do not raise.
\<close>

definition applyTweenPreset ::
  "TweenWorld \<Rightarrow> TweenPreset \<Rightarrow> number option \<Rightarrow> real \<Rightarrow> TweenWorld" where
  "applyTweenPreset tw preset rawStrength now =
     (let strength = resolveStrength rawStrength;
          tw1 = cancelActiveTween tw;
          orig = readOrigin (target tw1);
          r = length (tweens tw1);
          tw2 = tw1\<lparr>tweens := tweens tw1 @ [\<lparr>rafId = - 1, cancelled = False, restoreOrigin = orig\<rparr>],
                  activeTweens := Some r\<rparr>
      in requestTick tw2
           \<lparr>tickActive = r, tickPreset = preset, tickStrength = strength, tickOrigin = orig,
            startedAt = now, duration = getDuration preset\<rparr>)"

definition tick :: "TweenWorld \<Rightarrow> Tick \<Rightarrow> real \<Rightarrow> TweenWorld" where
  "tick tw cb now =
     (if cancelled (tweens tw ! tickActive cb) then tw
      else
        (let t = clamp (fdiv (fsub now (startedAt cb)) (duration cb)) 0 1;
             frame = applyFrame (tickPreset cb) t (tickStrength cb) (tickOrigin cb);
             tw1 = tw\<lparr>target := writeTransform (target tw) frame\<rparr>
         in if t < 1 then requestTick tw1 cb
            else tw1\<lparr>target := writeTransform (target tw1) (tickOrigin cb),
                     activeTweens := None\<rparr>))"

definition runTicks :: "TweenWorld \<Rightarrow> real \<Rightarrow> TweenWorld" where
  "runTicks tw now = fold (\<lambda>(rid, cb) v. tick v cb now) (tickQueue tw) (tw\<lparr>tickQueue := []\<rparr>)"

text \<open>The target's transform, when its position, scale and rotation are finite.\<close>

definition targetAt :: "Transform \<Rightarrow> TweenTarget" where
  "targetAt v =
     \<lparr>position = Some \<lparr>pt_x = Finite (posX v), pt_y = Finite (posY v)\<rparr>,
      scale = Some \<lparr>pt_x = Finite (scaleX v), pt_y = Finite (scaleY v)\<rparr>,
      targetRotation = Some (Finite (rotation v))\<rparr>"

definition restTween :: TweenWorld where
  "restTween =
     \<lparr>target = targetAt \<lparr>scaleX = 1, scaleY = 1, rotation = 0, posX = 0, posY = 0\<rparr>,
      tweens = [], activeTweens = None, tickQueue = [], nextTickId = 1\<rparr>"

text \<open>The transform of a target at rest, and a transform all of whose fields are doubles.\<close>

definition restOrigin :: Transform where
  "restOrigin = \<lparr>scaleX = 1, scaleY = 1, rotation = 0, posX = 0, posY = 0\<rparr>"

definition doubles :: "Transform \<Rightarrow> bool" where
  "doubles v =
     (isDouble (scaleX v) \<and> isDouble (scaleY v) \<and> isDouble (rotation v) \<and>
      isDouble (posX v) \<and> isDouble (posY v))"

text \<open>A bounce started on the target at rest at time 0, and the tick it requests.\<close>

definition bounceTween :: TweenWorld where
  "bounceTween = applyTweenPreset restTween Bounce None 0"

definition bounceTick :: Tick where
  "bounceTick =
     \<lparr>tickActive = 0, tickPreset = Bounce, tickStrength = 1, tickOrigin = restOrigin,
      startedAt = 0, duration = 340\<rparr>"

section \<open>The validator (motion/validator.ts)\<close>

subsection \<open>Value-level clone\<close>

text \<open>
  \<open>cloneAction\<close> and \<open>cloneMotionConfig\<close> on values: each object is rebuilt field by
  field. (The aliasing of the objects is the subject of the heap model below.)
\<close>

fun cloneAction :: "InputAction \<Rightarrow> InputAction" where
  "cloneAction (MotionAction g i p c) = MotionAction g i p c"
| "cloneAction (ExpressionAction n c) = ExpressionAction n c"
| "cloneAction (TweenAction p s c) = TweenAction p s c"
| "cloneAction (ComboAction r c) = ComboAction r c"

definition cloneMotionConfig :: "MotionConfig \<Rightarrow> MotionConfig" where
  "cloneMotionConfig config =
     \<lparr>keyMap = map (\<lambda>(input, action). (input, cloneAction action)) (keyMap config),
      comboRules =
        map (\<lambda>rule. \<lparr>comboId = comboId rule, sequence = sequence rule,
                       withinMs = withinMs rule, ruleAction = cloneAction (ruleAction rule),
                       ruleCooldownMs = ruleCooldownMs rule\<rparr>)
          (comboRules config),
      idle =
        \<lparr>enabled = enabled (idle config), afterMs = afterMs (idle config),
         intervalMs = intervalMs (idle config),
         actions =
           map (\<lambda>entry. \<lparr>entryAction = cloneAction (entryAction entry),
                           entryWeight = entryWeight entry\<rparr>)
             (actions (idle config))\<rparr>\<rparr>"

subsection \<open>Operations on untyped values\<close>

text \<open>
  Evaluation may raise: a result \<open>None\<close> is an uncaught \<open>TypeError\<close>, \<open>Some v\<close> the value
  \<open>v\<close>. Reading a property of \<open>undefined\<close> or \<open>null\<close> raises, and so does calling a method
  the value does not have (\<open>trim\<close> of a non-string, \<open>forEach\<close> and \<open>map\<close> of a non-array).
  Of the properties the validator reads, arrays and strings have \<open>length\<close> only.
\<close>

definition typeof :: "json \<Rightarrow> string" where
  "typeof v =
     (case v of
        JUndefined \<Rightarrow> ''undefined''
      | JNull \<Rightarrow> ''object''
      | JBool b \<Rightarrow> ''boolean''
      | JNum n \<Rightarrow> ''number''
      | JStr s \<Rightarrow> ''string''
      | JArr xs \<Rightarrow> ''object''
      | JObj fs \<Rightarrow> ''object'')"

definition Array_isArray :: "json \<Rightarrow> bool" where
  "Array_isArray v = (case v of JArr xs \<Rightarrow> True | _ \<Rightarrow> False)"

definition getProp :: "json \<Rightarrow> string \<Rightarrow> json option" where
  "getProp v k =
     (case v of
        JUndefined \<Rightarrow> None
      | JNull \<Rightarrow> None
      | JObj fs \<Rightarrow> Some (getOwn fs k)
      | JArr xs \<Rightarrow> Some (if k = ''length'' then JNum (Finite (real (length xs))) else JUndefined)
      | JStr s \<Rightarrow> Some (if k = ''length'' then JNum (Finite (real (length s))) else JUndefined)
      | _ \<Rightarrow> Some JUndefined)"

definition elements :: "json \<Rightarrow> json list option" where
  "elements v = (case v of JArr xs \<Rightarrow> Some xs | _ \<Rightarrow> None)"

definition trimOf :: "json \<Rightarrow> string option" where
  "trimOf v = (case v of JStr s \<Rightarrow> Some (trim s) | _ \<Rightarrow> None)"

fun showNat :: "nat \<Rightarrow> string" where
  "showNat n =
     (if n < 10 then [''0123456789'' ! n]
      else showNat (n div 10) @ [''0123456789'' ! (n mod 10)])"

declare showNat.simps [simp del]

definition Object_entries :: "json \<Rightarrow> (string \<times> json) list option" where
  "Object_entries v =
     (case v of
        JUndefined \<Rightarrow> None
      | JNull \<Rightarrow> None
      | JObj fs \<Rightarrow> Some fs
      | JArr xs \<Rightarrow> Some (zip (map showNat [0..<length xs]) xs)
      | JStr s \<Rightarrow> Some (zip (map showNat [0..<length s]) (map (\<lambda>c. JStr [c]) s))
      | _ \<Rightarrow> Some [])"

text \<open>\<open>a || b\<close> where evaluating \<open>b\<close> may raise: \<open>b\<close> is not evaluated when \<open>a\<close> holds.\<close>

definition orElse :: "bool \<Rightarrow> bool option \<Rightarrow> bool option" where
  "orElse a b = (if a then Some True else b)"

text \<open>\<open>v < n\<close> for a length \<open>v\<close>: false when \<open>v\<close> is \<open>undefined\<close>.\<close>

definition lessThan :: "json \<Rightarrow> real \<Rightarrow> bool" where
  "lessThan v n = (case v of JNum (Finite a) \<Rightarrow> a < n | _ \<Rightarrow> False)"

subsection \<open>Field parsers\<close>

definition isObject :: "json \<Rightarrow> bool" where
  "isObject v = (typeof v = ''object'' \<and> v \<noteq> JNull \<and> \<not> Array_isArray v)"

definition asNonEmptyString :: "json \<Rightarrow> string option option" where
  "asNonEmptyString v =
     (if typeof v \<noteq> ''string'' then Some None
      else do {
        trimmed \<leftarrow> trimOf v;
        Some (if length trimmed > 0 then Some trimmed else None)
      })"

definition Number_isInteger :: "real \<Rightarrow> bool" where
  "Number_isInteger v = (of_int \<lfloor>v\<rfloor> = v)"

definition asIntegerInRange :: "json \<Rightarrow> real \<Rightarrow> real \<Rightarrow> number option" where
  "asIntegerInRange v lo hi =
     (case v of
        JNum (Finite a) \<Rightarrow>
          if \<not> Number_isInteger a \<or> a < lo \<or> a > hi then None else Some (Finite a)
      | _ \<Rightarrow> None)"

definition asNumberInRange :: "json \<Rightarrow> real \<Rightarrow> real \<Rightarrow> number option" where
  "asNumberInRange v lo hi =
     (case v of
        JNum (Finite a) \<Rightarrow> if a < lo \<or> a > hi then None else Some (Finite a)
      | _ \<Rightarrow> None)"

text \<open>
  The parsers push onto the array \<open>errors\<close>: they take the list of the errors so far
  and return the new list with their result.
\<close>

definition parseCooldown :: "json \<Rightarrow> string \<Rightarrow> string list \<Rightarrow> number option \<times> string list" where
  "parseCooldown v path errs =
     (if v = JUndefined then (None, errs)
      else case asIntegerInRange v 0 60000 of
             None \<Rightarrow> (None, errs @ [path @ ''.cooldownMs must be an integer between 0 and 60000.''])
           | Some cooldown \<Rightarrow> (Some cooldown, errs))"

definition parseMotionAction ::
  "json \<Rightarrow> string \<Rightarrow> string list \<Rightarrow> (InputAction option \<times> string list) option" where
  "parseMotionAction raw path errs =
     do {
       rawGroup \<leftarrow> getProp raw ''group'';
       group \<leftarrow> asNonEmptyString rawGroup;
       case group of
         None \<Rightarrow> Some (None, errs @ [path @ ''.group must be a non-empty string.''])
       | Some g \<Rightarrow>
           do {
             rawIndex \<leftarrow> getProp raw ''index'';
             (index, errs1) \<leftarrow> Some
               (if rawIndex \<noteq> JUndefined then
                  (case asIntegerInRange rawIndex 0 1024 of
                     None \<Rightarrow> (None, errs @ [path @ ''.index must be an integer between 0 and 1024.''])
                   | Some v \<Rightarrow> (Some v, errs))
                else (None, errs));
             rawPriority \<leftarrow> getProp raw ''priority'';
             (priority, errs2) \<leftarrow> Some
               (if rawPriority \<noteq> JUndefined then
                  (case asIntegerInRange rawPriority 0 10 of
                     None \<Rightarrow> (None, errs1 @ [path @ ''.priority must be an integer between 0 and 10.''])
                   | Some v \<Rightarrow> (Some v, errs1))
                else (None, errs1));
             rawCooldown \<leftarrow> getProp raw ''cooldownMs'';
             (cooldown, errs3) \<leftarrow> Some (parseCooldown rawCooldown path errs2);
             Some (Some (MotionAction g index priority cooldown), errs3)
           }
     }"

definition presetOfString :: "string \<Rightarrow> TweenPreset option" where
  "presetOfString s =
     (if s = ''bounce'' then Some Bounce
      else if s = ''shake'' then Some Shake
      else if s = ''nod'' then Some Nod
      else None)"

definition parseTweenAction ::
  "json \<Rightarrow> string \<Rightarrow> string list \<Rightarrow> (InputAction option \<times> string list) option" where
  "parseTweenAction raw path errs =
     do {
       rawPreset \<leftarrow> getProp raw ''preset'';
       case (case rawPreset of JStr s \<Rightarrow> presetOfString s | _ \<Rightarrow> None) of
         None \<Rightarrow> Some (None, errs @ [path @ ''.preset must be one of: bounce, shake, nod.''])
       | Some preset \<Rightarrow>
           do {
             rawStrength \<leftarrow> getProp raw ''strength'';
             (strength, errs1) \<leftarrow> Some
               (if rawStrength \<noteq> JUndefined then
                  (case asNumberInRange rawStrength (5 / 100) 3 of
                     None \<Rightarrow> (None, errs @ [path @ ''.strength must be a number between 0.05 and 3.''])
                   | Some v \<Rightarrow> (Some v, errs))
                else (None, errs));
             rawCooldown \<leftarrow> getProp raw ''cooldownMs'';
             (cooldown, errs2) \<leftarrow> Some (parseCooldown rawCooldown path errs1);
             Some (Some (TweenAction preset strength cooldown), errs2)
           }
     }"

definition parseAction ::
  "json \<Rightarrow> string \<Rightarrow> string list \<Rightarrow> bool \<Rightarrow> (InputAction option \<times> string list) option" where
  "parseAction raw path errs allowCombo =
     (if \<not> isObject raw then Some (None, errs @ [path @ '' must be an object.''])
      else do {
        rawKind \<leftarrow> getProp raw ''kind'';
        kind \<leftarrow> asNonEmptyString rawKind;
        case kind of
          None \<Rightarrow> Some (None, errs @ [path @ ''.kind must be a non-empty string.''])
        | Some k \<Rightarrow>
            if k = ''motion'' then parseMotionAction raw path errs
            else if k = ''expression'' then
              do {
                rawName \<leftarrow> getProp raw ''name'';
                name \<leftarrow> asNonEmptyString rawName;
                case name of
                  None \<Rightarrow> Some (None, errs @ [path @ ''.name must be a non-empty string.''])
                | Some n \<Rightarrow>
                    do {
                      rawCooldown \<leftarrow> getProp raw ''cooldownMs'';
                      (cooldown, errs1) \<leftarrow> Some (parseCooldown rawCooldown path errs);
                      Some (Some (ExpressionAction n cooldown), errs1)
                    }
              }
            else if k = ''tween'' then parseTweenAction raw path errs
            else if k = ''combo'' then
              (if \<not> allowCombo then
                 Some (None, errs @ [path @ ''.kind=combo is not allowed in this context.''])
               else do {
                 rawRuleId \<leftarrow> getProp raw ''ruleId'';
                 ruleId \<leftarrow> asNonEmptyString rawRuleId;
                 case ruleId of
                   None \<Rightarrow> Some (None, errs @ [path @ ''.ruleId must be a non-empty string.''])
                 | Some r \<Rightarrow>
                     do {
                       rawCooldown \<leftarrow> getProp raw ''cooldownMs'';
                       (cooldown, errs1) \<leftarrow> Some (parseCooldown rawCooldown path errs);
                       Some (Some (ComboAction r cooldown), errs1)
                     }
               })
            else Some (None, errs @ [path @ ''.kind must be one of: motion, expression, tween, combo.''])
      })"

subsection \<open>The key map\<close>

text \<open>
  \<open>keyMap[inputKey] = parsed\<close>: a new key is appended, an existing key keeps its place
  and takes the new value. Assigning an object to the key \<open>__proto__\<close> sets the
  prototype of \<open>keyMap\<close> and adds no property.
\<close>

fun assign :: "('k \<times> 'v) list \<Rightarrow> 'k \<Rightarrow> 'v \<Rightarrow> ('k \<times> 'v) list" where
  "assign [] k v = [(k, v)]"
| "assign ((k', v') # rest) k v = (if k' = k then (k, v) # rest else (k', v') # assign rest k v)"

definition assignKey ::
  "(string \<times> InputAction) list \<Rightarrow> string \<Rightarrow> InputAction \<Rightarrow> (string \<times> InputAction) list" where
  "assignKey acc k v = (if k = ''__proto__'' then acc else assign acc k v)"

fun parseKeyMapEntries ::
  "(string \<times> json) list \<Rightarrow> (string \<times> InputAction) list \<Rightarrow> string list
     \<Rightarrow> ((string \<times> InputAction) list \<times> string list) option" where
  "parseKeyMapEntries [] acc errs = Some (acc, errs)"
| "parseKeyMapEntries ((input, actionRaw) # rest) acc errs =
     (let inputKey = trim input in
      if inputKey = [] then
        parseKeyMapEntries rest acc (errs @ [''keyMap contains an empty input key.''])
      else
        (case parseAction actionRaw (''keyMap.'' @ inputKey) errs True of
           None \<Rightarrow> None
         | Some (None, errs1) \<Rightarrow> parseKeyMapEntries rest acc errs1
         | Some (Some parsed, errs1) \<Rightarrow> parseKeyMapEntries rest (assignKey acc inputKey parsed) errs1))"

definition parseKeyMap ::
  "json \<Rightarrow> string list \<Rightarrow> ((string \<times> InputAction) list \<times> string list) option" where
  "parseKeyMap raw errs =
     (let fallback = keyMap (cloneMotionConfig defaultMotionConfig) in
      if \<not> isObject raw then Some (fallback, errs @ [''keyMap must be an object.''])
      else do {
        entries \<leftarrow> Object_entries raw;
        (parsedMap, errs1) \<leftarrow> parseKeyMapEntries entries [] errs;
        if length parsedMap = 0 then
          Some (fallback, errs1 @ [''keyMap must contain at least one valid input action.''])
        else Some (parsedMap, errs1)
      })"

subsection \<open>Combo rules\<close>

definition isComboAction :: "InputAction \<Rightarrow> bool" where
  "isComboAction a = (case a of ComboAction r c \<Rightarrow> True | _ \<Rightarrow> False)"

text \<open>
  The body of the \<open>forEach\<close> of \<open>parseComboRules\<close> for the item at \<open>index\<close>: the rules
  accepted so far, the set of their ids and the errors go in and come out.
\<close>

definition parseComboRule ::
  "json \<Rightarrow> nat \<Rightarrow> ComboRule list \<times> string list \<times> string list
     \<Rightarrow> (ComboRule list \<times> string list \<times> string list) option" where
  "parseComboRule item index st =
     (case st of (acc, idSet, errs) \<Rightarrow>
      let path = ''comboRules['' @ showNat index @ '']'' in
      if \<not> isObject item then Some (acc, idSet, errs @ [path @ '' must be an object.''])
      else do {
        rawId \<leftarrow> getProp item ''id'';
        ident \<leftarrow> asNonEmptyString rawId;
        case ident of
          None \<Rightarrow> Some (acc, idSet, errs @ [path @ ''.id must be a non-empty string.''])
        | Some i \<Rightarrow>
            if i \<in> set idSet then
              Some (acc, idSet, errs @ [path @ ''.id must be unique, duplicate: '' @ i @ ''.''])
            else do {
              rawSequence \<leftarrow> getProp item ''sequence'';
              tooShort \<leftarrow> orElse (\<not> Array_isArray rawSequence)
                (do { n \<leftarrow> getProp rawSequence ''length''; Some (lessThan n 2) });
              if tooShort then
                Some (acc, idSet, errs @ [path @ ''.sequence must be an array with at least 2 inputs.''])
              else do {
                parts \<leftarrow> elements rawSequence;
                mapped \<leftarrow> those (map asNonEmptyString parts);
                let kept = List.map_filter (\<lambda>part. part) mapped in
                if length kept \<noteq> length parts then
                  Some (acc, idSet, errs @ [path @ ''.sequence must contain only non-empty strings.''])
                else do {
                  rawWithin \<leftarrow> getProp item ''withinMs'';
                  case asIntegerInRange rawWithin 1 10000 of
                    None \<Rightarrow>
                      Some (acc, idSet,
                            errs @ [path @ ''.withinMs must be an integer between 1 and 10000.''])
                  | Some limit \<Rightarrow>
                      do {
                        rawAction \<leftarrow> getProp item ''action'';
                        (action, errs1) \<leftarrow> parseAction rawAction (path @ ''.action'') errs False;
                        case action of
                          None \<Rightarrow>
                            Some (acc, idSet, errs1 @ [path @ ''.action must be motion/expression/tween.''])
                        | Some a \<Rightarrow>
                            if isComboAction a then
                              Some (acc, idSet,
                                    errs1 @ [path @ ''.action must be motion/expression/tween.''])
                            else do {
                              rawCooldown \<leftarrow> getProp item ''cooldownMs'';
                              (cooldown, errs2) \<leftarrow> Some (parseCooldown rawCooldown path errs1);
                              Some (acc @ [\<lparr>comboId = i, sequence = kept, withinMs = limit,
                                             ruleAction = a, ruleCooldownMs = cooldown\<rparr>],
                                    idSet @ [i], errs2)
                            }
                      }
                }
              }
            }
      })"

fun parseComboRuleItems ::
  "json list \<Rightarrow> nat \<Rightarrow> ComboRule list \<times> string list \<times> string list
     \<Rightarrow> (ComboRule list \<times> string list \<times> string list) option" where
  "parseComboRuleItems [] index st = Some st"
| "parseComboRuleItems (item # items) index st =
     (case parseComboRule item index st of
        None \<Rightarrow> None
      | Some st1 \<Rightarrow> parseComboRuleItems items (Suc index) st1)"

definition parseComboRules :: "json \<Rightarrow> string list \<Rightarrow> (ComboRule list \<times> string list) option" where
  "parseComboRules raw errs =
     (let fallback = comboRules (cloneMotionConfig defaultMotionConfig) in
      if raw = JUndefined then Some (fallback, errs)
      else if \<not> Array_isArray raw then Some (fallback, errs @ [''comboRules must be an array.''])
      else do {
        items \<leftarrow> elements raw;
        (rules, idSet, errs1) \<leftarrow> parseComboRuleItems items 0 ([], [], errs);
        Some (rules, errs1)
      })"

subsection \<open>The idle policy\<close>

definition parseIdleAction ::
  "json \<Rightarrow> nat \<Rightarrow> IdleEntry list \<times> string list \<Rightarrow> (IdleEntry list \<times> string list) option" where
  "parseIdleAction item index st =
     (case st of (acc, errs) \<Rightarrow>
      let path = ''idle.actions['' @ showNat index @ '']'' in
      if \<not> isObject item then Some (acc, errs @ [path @ '' must be an object.''])
      else do {
        rawAction \<leftarrow> getProp item ''action'';
        (action, errs1) \<leftarrow> parseAction rawAction (path @ ''.action'') errs False;
        case action of
          None \<Rightarrow> Some (acc, errs1 @ [path @ ''.action must be motion/expression/tween.''])
        | Some a \<Rightarrow>
            if isComboAction a then
              Some (acc, errs1 @ [path @ ''.action must be motion/expression/tween.''])
            else do {
              rawWeight \<leftarrow> getProp item ''weight'';
              (w, errs2) \<leftarrow> Some
                (if rawWeight \<noteq> JUndefined then
                   (case asNumberInRange rawWeight (1 / 100) 100 of
                      None \<Rightarrow> (None, errs1 @ [path @ ''.weight must be a number between 0.01 and 100.''])
                    | Some v \<Rightarrow> (Some v, errs1))
                 else (None, errs1));
              Some (acc @ [\<lparr>entryAction = a, entryWeight = w\<rparr>], errs2)
            }
      })"

fun parseIdleActionItems ::
  "json list \<Rightarrow> nat \<Rightarrow> IdleEntry list \<times> string list \<Rightarrow> (IdleEntry list \<times> string list) option" where
  "parseIdleActionItems [] index st = Some st"
| "parseIdleActionItems (item # items) index st =
     (case parseIdleAction item index st of
        None \<Rightarrow> None
      | Some st1 \<Rightarrow> parseIdleActionItems items (Suc index) st1)"

definition parseIdleActions :: "json \<Rightarrow> string list \<Rightarrow> (IdleEntry list \<times> string list) option" where
  "parseIdleActions raw errs =
     (let fallback = actions (idle (cloneMotionConfig defaultMotionConfig)) in
      do {
        empty \<leftarrow> orElse (\<not> Array_isArray raw)
          (do { n \<leftarrow> getProp raw ''length''; Some (n = JNum (Finite 0)) });
        if empty then Some (fallback, errs @ [''idle.actions must be a non-empty array.''])
        else do {
          items \<leftarrow> elements raw;
          (entries, errs1) \<leftarrow> parseIdleActionItems items 0 ([], errs);
          if length entries = 0 then
            Some (fallback, errs1 @ [''idle.actions has no valid entries.''])
          else Some (entries, errs1)
        }
      })"

definition parseIdleConfig :: "json \<Rightarrow> string list \<Rightarrow> (IdleConfig \<times> string list) option" where
  "parseIdleConfig raw errs =
     (let fallback = idle (cloneMotionConfig defaultMotionConfig) in
      if \<not> isObject raw then Some (fallback, errs @ [''idle must be an object.''])
      else do {
        rawEnabled \<leftarrow> getProp raw ''enabled'';
        (en, errs1) \<leftarrow> Some
          (if rawEnabled \<noteq> JUndefined then
             (case rawEnabled of
                JBool b \<Rightarrow> (b, errs)
              | _ \<Rightarrow> (True, errs @ [''idle.enabled must be a boolean.'']))
           else (True, errs));
        rawAfter \<leftarrow> getProp raw ''afterMs'';
        (after, errs2) \<leftarrow> Some
          (case asIntegerInRange rawAfter 500 600000 of
             None \<Rightarrow> (None, errs1 @ [''idle.afterMs must be an integer between 500 and 600000.''])
           | Some v \<Rightarrow> (Some v, errs1));
        rawInterval \<leftarrow> getProp raw ''intervalMs'';
        (interval, errs3) \<leftarrow> Some
          (if rawInterval \<noteq> JUndefined then
             (case asIntegerInRange rawInterval 100 600000 of
                None \<Rightarrow> (None, errs2 @ [''idle.intervalMs must be an integer between 100 and 600000.''])
              | Some v \<Rightarrow> (Some v, errs2))
           else (None, errs2));
        rawActions \<leftarrow> getProp raw ''actions'';
        (entries, errs4) \<leftarrow> parseIdleActions rawActions errs3;
        Some (\<lparr>enabled = en,
               afterMs = (case after of Some v \<Rightarrow> v | None \<Rightarrow> afterMs fallback),
               intervalMs = interval,
               actions = entries\<rparr>, errs4)
      })"

subsection \<open>The entry points\<close>

record MotionConfigValidationResult =
  ok :: bool
  errors :: "string list"
  "value" :: "MotionConfig option"

definition validateMotionConfig :: "json \<Rightarrow> MotionConfigValidationResult option" where
  "validateMotionConfig raw =
     (if \<not> isObject raw then
        Some \<lparr>ok = False, errors = [''Motion config root must be an object.''], value = None\<rparr>
      else do {
        rawVersion \<leftarrow> getProp raw ''version'';
        errs0 \<leftarrow> Some (if rawVersion \<noteq> JUndefined \<and> rawVersion \<noteq> JNum (Finite 1)
                        then [''version must be 1.''] else []);
        rawKeyMap \<leftarrow> getProp raw ''keyMap'';
        (parsedKeyMap, errs1) \<leftarrow> parseKeyMap rawKeyMap errs0;
        rawComboRules \<leftarrow> getProp raw ''comboRules'';
        (parsedRules, errs2) \<leftarrow> parseComboRules rawComboRules errs1;
        rawIdle \<leftarrow> getProp raw ''idle'';
        (parsedIdle, errs3) \<leftarrow> parseIdleConfig rawIdle errs2;
        if length errs3 > 0 then Some \<lparr>ok = False, errors = errs3, value = None\<rparr>
        else Some \<lparr>ok = True, errors = errs3,
                   value = Some \<lparr>keyMap = parsedKeyMap, comboRules = parsedRules,
                                  idle = parsedIdle\<rparr>\<rparr>
      })"

text \<open>
  \<open>resolveMotionConfig\<close>; the message it writes with \<open>console.error\<close> is left out.
\<close>

definition resolveMotionConfig :: "json \<Rightarrow> MotionConfig option" where
  "resolveMotionConfig raw =
     do {
       result \<leftarrow> validateMotionConfig raw;
       case (ok result, value result) of
         (True, Some v) \<Rightarrow> Some v
       | _ \<Rightarrow> Some (cloneMotionConfig defaultMotionConfig)
     }"

subsection \<open>A configuration as untyped data\<close>

text \<open>
  The object a \<open>MotionConfig\<close> is when it is handed to the validator again: an absent
  optional field reads as \<open>undefined\<close>.
\<close>

definition optNum :: "number option \<Rightarrow> json" where
  "optNum v = (case v of None \<Rightarrow> JUndefined | Some n \<Rightarrow> JNum n)"

definition presetName :: "TweenPreset \<Rightarrow> string" where
  "presetName p = (case p of Bounce \<Rightarrow> ''bounce'' | Shake \<Rightarrow> ''shake'' | Nod \<Rightarrow> ''nod'')"

fun actionData :: "InputAction \<Rightarrow> json" where
  "actionData (MotionAction g i p c) =
     JObj [(''kind'', JStr ''motion''), (''group'', JStr g), (''index'', optNum i),
           (''priority'', optNum p), (''cooldownMs'', optNum c)]"
| "actionData (ExpressionAction n c) =
     JObj [(''kind'', JStr ''expression''), (''name'', JStr n), (''cooldownMs'', optNum c)]"
| "actionData (TweenAction p s c) =
     JObj [(''kind'', JStr ''tween''), (''preset'', JStr (presetName p)), (''strength'', optNum s),
           (''cooldownMs'', optNum c)]"
| "actionData (ComboAction r c) =
     JObj [(''kind'', JStr ''combo''), (''ruleId'', JStr r), (''cooldownMs'', optNum c)]"

definition ruleData :: "ComboRule \<Rightarrow> json" where
  "ruleData rule =
     JObj [(''id'', JStr (comboId rule)), (''sequence'', JArr (map JStr (sequence rule))),
           (''withinMs'', JNum (withinMs rule)), (''action'', actionData (ruleAction rule)),
           (''cooldownMs'', optNum (ruleCooldownMs rule))]"

definition entryData :: "IdleEntry \<Rightarrow> json" where
  "entryData entry =
     JObj [(''action'', actionData (entryAction entry)), (''weight'', optNum (entryWeight entry))]"

definition configData :: "MotionConfig \<Rightarrow> json" where
  "configData config =
     JObj [(''version'', JNum (Finite 1)),
           (''keyMap'', JObj (map (\<lambda>(input, action). (input, actionData action)) (keyMap config))),
           (''comboRules'', JArr (map ruleData (comboRules config))),
           (''idle'',
            JObj [(''enabled'', JBool (enabled (idle config))),
                  (''afterMs'', JNum (afterMs (idle config))),
                  (''intervalMs'', optNum (intervalMs (idle config))),
                  (''actions'', JArr (map entryData (actions (idle config))))])]"

subsection \<open>Derived notions\<close>

text \<open>The string \<open>asNonEmptyString\<close> returns when it does not raise.\<close>

definition nonEmptyString :: "json \<Rightarrow> string option" where
  "nonEmptyString v =
     (case v of JStr s \<Rightarrow> if trim s \<noteq> [] then Some (trim s) else None | _ \<Rightarrow> None)"

subsection \<open>Well-formed configurations\<close>

text \<open>
  What the validator accepts without an error: trimmed non-empty strings, numbers in
  their ranges, distinct keys and rule ids, no combo reference outside the key map.
\<close>

definition cleanString :: "string \<Rightarrow> bool" where
  "cleanString s = (s \<noteq> [] \<and> trim s = s)"

definition intIn :: "real \<Rightarrow> real \<Rightarrow> number \<Rightarrow> bool" where
  "intIn lo hi n = (case n of Finite a \<Rightarrow> Number_isInteger a \<and> lo \<le> a \<and> a \<le> hi | _ \<Rightarrow> False)"

definition numIn :: "real \<Rightarrow> real \<Rightarrow> number \<Rightarrow> bool" where
  "numIn lo hi n = (case n of Finite a \<Rightarrow> lo \<le> a \<and> a \<le> hi | _ \<Rightarrow> False)"

definition optIn :: "(number \<Rightarrow> bool) \<Rightarrow> number option \<Rightarrow> bool" where
  "optIn P v = (case v of None \<Rightarrow> True | Some n \<Rightarrow> P n)"

fun wfAction :: "bool \<Rightarrow> InputAction \<Rightarrow> bool" where
  "wfAction allowCombo (MotionAction g i p c) =
     (cleanString g \<and> optIn (intIn 0 1024) i \<and> optIn (intIn 0 10) p \<and> optIn (intIn 0 60000) c)"
| "wfAction allowCombo (ExpressionAction n c) = (cleanString n \<and> optIn (intIn 0 60000) c)"
| "wfAction allowCombo (TweenAction p s c) =
     (optIn (numIn (5 / 100) 3) s \<and> optIn (intIn 0 60000) c)"
| "wfAction allowCombo (ComboAction r c) =
     (allowCombo \<and> cleanString r \<and> optIn (intIn 0 60000) c)"

definition wfBinding :: "string \<times> InputAction \<Rightarrow> bool" where
  "wfBinding b = (cleanString (fst b) \<and> fst b \<noteq> ''__proto__'' \<and> wfAction True (snd b))"

definition wfKeyMap :: "(string \<times> InputAction) list \<Rightarrow> bool" where
  "wfKeyMap m = (distinct (map fst m) \<and> list_all wfBinding m)"

definition wfRule :: "ComboRule \<Rightarrow> bool" where
  "wfRule rule =
     (cleanString (comboId rule) \<and> 2 \<le> length (sequence rule) \<and>
      list_all cleanString (sequence rule) \<and> intIn 1 10000 (withinMs rule) \<and>
      wfAction False (ruleAction rule) \<and> optIn (intIn 0 60000) (ruleCooldownMs rule))"

definition wfRules :: "ComboRule list \<Rightarrow> bool" where
  "wfRules rules = (distinct (map comboId rules) \<and> list_all wfRule rules)"

definition wfEntry :: "IdleEntry \<Rightarrow> bool" where
  "wfEntry entry =
     (wfAction False (entryAction entry) \<and> optIn (numIn (1 / 100) 100) (entryWeight entry))"

definition wfIdle :: "IdleConfig \<Rightarrow> bool" where
  "wfIdle i =
     (intIn 500 600000 (afterMs i) \<and> optIn (intIn 100 600000) (intervalMs i) \<and>
      actions i \<noteq> [] \<and> list_all wfEntry (actions i))"

definition wfConfig :: "MotionConfig \<Rightarrow> bool" where
  "wfConfig config =
     (keyMap config \<noteq> [] \<and> wfKeyMap (keyMap config) \<and> wfRules (comboRules config) \<and>
      wfIdle (idle config))"

section \<open>Configurations as objects in a store\<close>

text \<open>
  For the aliasing of \<open>cloneMotionConfig\<close> the objects of a configuration live in a
  store: an address is an index into the list of the objects allocated so far, and an
  object refers to its nested objects by address. An action object holds primitive
  values only. A key-map object has its own entries and, once an object has been
  assigned to its key \<open>__proto__\<close>, that object as prototype.
\<close>

type_synonym addr = nat

datatype hobj =
    HAction InputAction
  | HKeyMap "(string \<times> addr) list" "addr option"
  | HSequence "string list"
  | HRule string addr number addr "number option"
  | HRules "addr list"
  | HEntry addr "number option"
  | HEntries "addr list"
  | HIdle bool number "number option" addr
  | HConfig addr addr addr

type_synonym heap = "hobj list"

definition lookup :: "heap \<Rightarrow> addr \<Rightarrow> hobj option" where
  "lookup h a = (if a < length h then Some (h ! a) else None)"

definition alloc :: "heap \<Rightarrow> hobj \<Rightarrow> heap \<times> addr" where
  "alloc h ob = (h @ [ob], length h)"

subsection \<open>The configuration an address stands for\<close>

definition readAction :: "heap \<Rightarrow> addr \<Rightarrow> InputAction option" where
  "readAction h a = (case lookup h a of Some (HAction x) \<Rightarrow> Some x | _ \<Rightarrow> None)"

fun readBindings :: "heap \<Rightarrow> (string \<times> addr) list \<Rightarrow> (string \<times> InputAction) list option" where
  "readBindings h [] = Some []"
| "readBindings h ((k, r) # es) =
     (case readAction h r of
        None \<Rightarrow> None
      | Some x \<Rightarrow> map_option (\<lambda>rest. (k, x) # rest) (readBindings h es))"

definition readKeyMap :: "heap \<Rightarrow> addr \<Rightarrow> (string \<times> InputAction) list option" where
  "readKeyMap h k =
     (case lookup h k of Some (HKeyMap own proto) \<Rightarrow> readBindings h own | _ \<Rightarrow> None)"

definition readRule :: "heap \<Rightarrow> addr \<Rightarrow> ComboRule option" where
  "readRule h r =
     (case lookup h r of
        Some (HRule i s w a c) \<Rightarrow>
          (case (lookup h s, readAction h a) of
             (Some (HSequence xs), Some x) \<Rightarrow>
               Some \<lparr>comboId = i, sequence = xs, withinMs = w, ruleAction = x,
                     ruleCooldownMs = c\<rparr>
           | _ \<Rightarrow> None)
      | _ \<Rightarrow> None)"

fun readRuleList :: "heap \<Rightarrow> addr list \<Rightarrow> ComboRule list option" where
  "readRuleList h [] = Some []"
| "readRuleList h (r # rs) =
     (case readRule h r of
        None \<Rightarrow> None
      | Some x \<Rightarrow> map_option (\<lambda>rest. x # rest) (readRuleList h rs))"

definition readEntry :: "heap \<Rightarrow> addr \<Rightarrow> IdleEntry option" where
  "readEntry h e =
     (case lookup h e of
        Some (HEntry a w) \<Rightarrow>
          (case readAction h a of
             Some x \<Rightarrow> Some \<lparr>entryAction = x, entryWeight = w\<rparr>
           | None \<Rightarrow> None)
      | _ \<Rightarrow> None)"

fun readEntryList :: "heap \<Rightarrow> addr list \<Rightarrow> IdleEntry list option" where
  "readEntryList h [] = Some []"
| "readEntryList h (e # es) =
     (case readEntry h e of
        None \<Rightarrow> None
      | Some x \<Rightarrow> map_option (\<lambda>rest. x # rest) (readEntryList h es))"

definition readIdle :: "heap \<Rightarrow> addr \<Rightarrow> IdleConfig option" where
  "readIdle h i =
     (case lookup h i of
        Some (HIdle en af iv acts) \<Rightarrow>
          (case lookup h acts of
             Some (HEntries es) \<Rightarrow>
               map_option (\<lambda>xs. \<lparr>enabled = en, afterMs = af, intervalMs = iv, actions = xs\<rparr>)
                 (readEntryList h es)
           | _ \<Rightarrow> None)
      | _ \<Rightarrow> None)"

definition readRules :: "heap \<Rightarrow> addr \<Rightarrow> ComboRule list option" where
  "readRules h rs = (case lookup h rs of Some (HRules xs) \<Rightarrow> readRuleList h xs | _ \<Rightarrow> None)"

definition readConfig :: "heap \<Rightarrow> addr \<Rightarrow> MotionConfig option" where
  "readConfig h a =
     (case lookup h a of
        Some (HConfig k rs i) \<Rightarrow>
          (case (readKeyMap h k, readRules h rs, readIdle h i) of
             (Some km, Some rules, Some idl) \<Rightarrow>
               Some \<lparr>keyMap = km, comboRules = rules, idle = idl\<rparr>
           | _ \<Rightarrow> None)
      | _ \<Rightarrow> None)"

subsection \<open>The objects of a configuration\<close>

definition keyMapFootprint :: "heap \<Rightarrow> addr \<Rightarrow> addr list" where
  "keyMapFootprint h k =
     k # (case lookup h k of
            Some (HKeyMap own proto) \<Rightarrow>
              map snd own @ (case proto of Some p \<Rightarrow> [p] | None \<Rightarrow> [])
          | _ \<Rightarrow> [])"

definition ruleFootprint :: "heap \<Rightarrow> addr \<Rightarrow> addr list" where
  "ruleFootprint h r = r # (case lookup h r of Some (HRule i s w a c) \<Rightarrow> [s, a] | _ \<Rightarrow> [])"

definition rulesFootprint :: "heap \<Rightarrow> addr \<Rightarrow> addr list" where
  "rulesFootprint h rs =
     rs # (case lookup h rs of
             Some (HRules xs) \<Rightarrow> concat (map (ruleFootprint h) xs)
           | _ \<Rightarrow> [])"

definition entryFootprint :: "heap \<Rightarrow> addr \<Rightarrow> addr list" where
  "entryFootprint h e = e # (case lookup h e of Some (HEntry a w) \<Rightarrow> [a] | _ \<Rightarrow> [])"

definition idleFootprint :: "heap \<Rightarrow> addr \<Rightarrow> addr list" where
  "idleFootprint h i =
     i # (case lookup h i of
            Some (HIdle en af iv acts) \<Rightarrow>
              acts # (case lookup h acts of
                        Some (HEntries es) \<Rightarrow> concat (map (entryFootprint h) es)
                      | _ \<Rightarrow> [])
          | _ \<Rightarrow> [])"

text \<open>Every object reachable from the configuration at \<open>a\<close>.\<close>

definition footprint :: "heap \<Rightarrow> addr \<Rightarrow> addr list" where
  "footprint h a =
     a # (case lookup h a of
            Some (HConfig k rs i) \<Rightarrow>
              keyMapFootprint h k @ rulesFootprint h rs @ idleFootprint h i
          | _ \<Rightarrow> [])"

subsection \<open>cloneMotionConfig on the store\<close>

text \<open>
  The results are \<open>None\<close> when the store does not hold objects of the declared types at
  the addresses read.
\<close>

definition cloneActionAt :: "heap \<Rightarrow> addr \<Rightarrow> (heap \<times> addr) option" where
  "cloneActionAt h a =
     (case lookup h a of
        Some (HAction x) \<Rightarrow> Some (alloc h (HAction (cloneAction x)))
      | _ \<Rightarrow> None)"

text \<open>\<open>keyMap[input] = cloned\<close> on the key-map object at \<open>k\<close>.\<close>

definition setKey :: "heap \<Rightarrow> addr \<Rightarrow> string \<Rightarrow> addr \<Rightarrow> heap" where
  "setKey h k input cloned =
     (case lookup h k of
        Some (HKeyMap own proto) \<Rightarrow>
          h[k := (if input = ''__proto__'' then HKeyMap own (Some cloned)
                  else HKeyMap (assign own input cloned) proto)]
      | _ \<Rightarrow> h)"

fun cloneKeyMapEntries :: "heap \<Rightarrow> addr \<Rightarrow> (string \<times> addr) list \<Rightarrow> heap option" where
  "cloneKeyMapEntries h k [] = Some h"
| "cloneKeyMapEntries h k ((input, action) # es) =
     (case cloneActionAt h action of
        None \<Rightarrow> None
      | Some (h1, cloned) \<Rightarrow> cloneKeyMapEntries (setKey h1 k input cloned) k es)"

definition cloneRuleAt :: "heap \<Rightarrow> addr \<Rightarrow> (heap \<times> addr) option" where
  "cloneRuleAt h r =
     (case lookup h r of
        Some (HRule i s w a c) \<Rightarrow>
          (case lookup h s of
             Some (HSequence xs) \<Rightarrow>
               (let (h1, s') = alloc h (HSequence xs) in
                case cloneActionAt h1 a of
                  None \<Rightarrow> None
                | Some (h2, a') \<Rightarrow> Some (alloc h2 (HRule i s' w a' c)))
           | _ \<Rightarrow> None)
      | _ \<Rightarrow> None)"

fun cloneRuleList :: "heap \<Rightarrow> addr list \<Rightarrow> (heap \<times> addr list) option" where
  "cloneRuleList h [] = Some (h, [])"
| "cloneRuleList h (r # rs) =
     (case cloneRuleAt h r of
        None \<Rightarrow> None
      | Some (h1, r') \<Rightarrow>
          (case cloneRuleList h1 rs of
             None \<Rightarrow> None
           | Some (h2, rs') \<Rightarrow> Some (h2, r' # rs')))"

definition cloneEntryAt :: "heap \<Rightarrow> addr \<Rightarrow> (heap \<times> addr) option" where
  "cloneEntryAt h e =
     (case lookup h e of
        Some (HEntry a w) \<Rightarrow>
          (case cloneActionAt h a of
             None \<Rightarrow> None
           | Some (h1, a') \<Rightarrow> Some (alloc h1 (HEntry a' w)))
      | _ \<Rightarrow> None)"

fun cloneEntryList :: "heap \<Rightarrow> addr list \<Rightarrow> (heap \<times> addr list) option" where
  "cloneEntryList h [] = Some (h, [])"
| "cloneEntryList h (e # es) =
     (case cloneEntryAt h e of
        None \<Rightarrow> None
      | Some (h1, e') \<Rightarrow>
          (case cloneEntryList h1 es of
             None \<Rightarrow> None
           | Some (h2, es') \<Rightarrow> Some (h2, e' # es')))"

definition cloneMotionConfigAt :: "heap \<Rightarrow> addr \<Rightarrow> (heap \<times> addr) option" where
  "cloneMotionConfigAt h a =
     (case lookup h a of
        Some (HConfig k rs i) \<Rightarrow>
          (case (lookup h k, lookup h rs, lookup h i) of
             (Some (HKeyMap own proto), Some (HRules rules), Some (HIdle en af iv acts)) \<Rightarrow>
               (case lookup h acts of
                  Some (HEntries entries) \<Rightarrow>
                    (let (h1, k') = alloc h (HKeyMap [] None) in
                     case cloneKeyMapEntries h1 k' own of
                       None \<Rightarrow> None
                     | Some h2 \<Rightarrow>
                         (case cloneRuleList h2 rules of
                            None \<Rightarrow> None
                          | Some (h3, rules') \<Rightarrow>
                              (let (h4, rs') = alloc h3 (HRules rules') in
                               case cloneEntryList h4 entries of
                                 None \<Rightarrow> None
                               | Some (h5, entries') \<Rightarrow>
                                   (let (h6, acts') = alloc h5 (HEntries entries');
                                        (h7, i') = alloc h6 (HIdle en af iv acts')
                                    in Some (alloc h7 (HConfig k' rs' i'))))))
                | _ \<Rightarrow> None)
           | _ \<Rightarrow> None)
      | _ \<Rightarrow> None)"

text \<open>
  A store with one configuration, at address 8: the key map has the entries \<open>KeyA\<close>
  and \<open>__proto__\<close> (as \<open>JSON.parse\<close> produces them), there is no combo rule and one
  idle entry.
\<close>

definition protoStore :: heap where
  "protoStore =
     [HAction (MotionAction ''tap_left'' None None None),
      HAction (MotionAction ''wave'' None None None),
      HKeyMap [(''KeyA'', 0), (''__proto__'', 1)] None,
      HRules [],
      HAction (MotionAction ''idle_1'' None None None),
      HEntry 4 None,
      HEntries [5],
      HIdle True (Finite 8000) None 6,
      HConfig 2 3 7]"

text \<open>
  A store with one configuration, at address 11: two key bindings, one combo rule and
  one idle entry, taken from the default configuration.
\<close>

definition sampleStore :: heap where
  "sampleStore =
     [HAction (MotionAction ''tap_left'' (Some (Finite 0)) (Some (Finite 2)) (Some (Finite 120))),
      HAction (TweenAction Bounce (Some (Finite (8 / 10))) (Some (Finite 80))),
      HKeyMap [(''KeyA'', 0), (''MouseLeft'', 1)] None,
      HSequence [''KeyA'', ''KeyD''],
      HAction (MotionAction ''combo_burst'' None (Some (Finite 3)) (Some (Finite 500))),
      HRule ''left-right-burst'' 3 (Finite 250) 4 (Some (Finite 700)),
      HRules [5],
      HAction (MotionAction ''idle_1'' None None None),
      HEntry 7 (Some (Finite 3)),
      HEntries [8],
      HIdle True (Finite 8000) (Some (Finite 6000)) 9,
      HConfig 2 6 10]"

definition sampleConfig :: MotionConfig where
  "sampleConfig =
     \<lparr>keyMap =
        [(''KeyA'', MotionAction ''tap_left'' (Some (Finite 0)) (Some (Finite 2)) (Some (Finite 120))),
         (''MouseLeft'', TweenAction Bounce (Some (Finite (8 / 10))) (Some (Finite 80)))],
      comboRules =
        [\<lparr>comboId = ''left-right-burst'', sequence = [''KeyA'', ''KeyD''],
          withinMs = Finite 250,
          ruleAction = MotionAction ''combo_burst'' None (Some (Finite 3)) (Some (Finite 500)),
          ruleCooldownMs = Some (Finite 700)\<rparr>],
      idle =
        \<lparr>enabled = True, afterMs = Finite 8000, intervalMs = Some (Finite 6000),
         actions =
           [\<lparr>entryAction = MotionAction ''idle_1'' None None None,
             entryWeight = Some (Finite 3)\<rparr>]\<rparr>\<rparr>"

text \<open>\<open>keeps h h'\<close>: the store \<open>h'\<close> holds every object of \<open>h\<close>, unchanged, at its address.\<close>

definition keeps :: "heap \<Rightarrow> heap \<Rightarrow> bool" where
  "keeps h h' = (length h \<le> length h' \<and> take (length h) h' = h)"

section \<open>Properties of the motion engine\<close>

lemma triggerFallbackTween_dispatches:
  "dispatches (triggerFallbackTween w reason random now) = dispatches w"
  by (simp add: triggerFallbackTween_def Let_def requestAnimationFrame_def setFallbackRafId_def
      cancelAnimationFrame_def split: option.split)

lemma triggerFallbackTween_started:
  "fallbackStarted (triggerFallbackTween w reason random now) reason"
  by (simp add: fallbackStarted_def triggerFallbackTween_def Let_def requestAnimationFrame_def
      setFallbackRafId_def cancelAnimationFrame_def split: option.split)

lemma playMotionOrFallback_dispatches:
  "dispatches (playMotionOrFallback w motionName reason runtime random now)
     = dispatches w @ [(motionName, reason)]"
  by (simp add: playMotionOrFallback_def Let_def triggerFallbackTween_dispatches
      split: option.split motion_outcome.split)

lemma trim_KeyZ: "trim ''KeyZ'' = ''KeyZ''"
  by (simp add: trim_def isWhiteSpace_def)

lemma KeyZ_unmapped: "resolveBindingMotion DEFAULT_MOTION_MAP ''KeyZ'' = None"
  by (simp add: resolveBindingMotion_def keyAliases_def DEFAULT_MOTION_MAP_def getOwn_def)

lemma easeOutCubic_pos:
  assumes "0 < x" "x \<le> 1"
  shows "0 < easeOutCubic x"
proof -
  have "0 \<le> 1 - x" "1 - x < 1" using assms by simp_all
  then have "(1 - x) ^ 3 < 1 ^ 3" by (intro power_strict_mono) simp_all
  then show ?thesis by (simp add: easeOutCubic_def)
qed

lemma easeInOutQuad_less_one:
  assumes "0 \<le> x" "x < 1"
  shows "easeInOutQuad x < 1"
proof (cases "x < 1 / 2")
  case True
  have "x * x \<le> (1 / 2) * x" using True assms(1) by (intro mult_right_mono) simp_all
  also have "\<dots> < 1 / 2" using True by simp
  finally show ?thesis using True by (simp add: easeInOutQuad_def)
next
  case False
  have "0 < 2 - 2 * x" using assms(2) by simp
  then have "0 < (2 - 2 * x) ^ 2" by simp
  then show ?thesis using False by (simp add: easeInOutQuad_def)
qed

text \<open>The transform the closure \<open>animate\<close> writes at time \<open>t\<close> on a live engine.\<close>

lemma animate_model:
  assumes "\<not> disposed (state w)" "posY (peak a) = posY (origin a) - 6"
    "startAt a < t" "t < startAt a + 380"
  shows "posY (model (animate w a t)) < posY (origin a)"
proof (cases "t - startAt a \<le> 160")
  case True
  have "0 < (t - startAt a) / 160" "(t - startAt a) / 160 \<le> 1"
    using assms(3) True by simp_all
  then have "0 < easeOutCubic (clamp ((t - startAt a) / 160) 0 1)"
    by (simp add: clamp_def min_def max_def easeOutCubic_pos)
  then show ?thesis
    using assms(1,2) True
    by (simp add: animate_def Let_def upDuration_def requestAnimationFrame_def
        setFallbackRafId_def lerpTransform_def lerp_def)
next
  case False
  have d: "t - startAt a - 160 \<le> 220" using assms(4) by simp
  have "0 \<le> (t - startAt a - 160) / 220" "(t - startAt a - 160) / 220 < 1"
    using assms(4) False by simp_all
  then have e: "easeInOutQuad (clamp ((t - startAt a - 160) / 220) 0 1) < 1"
    by (simp add: clamp_def min_def max_def easeInOutQuad_less_one)
  have "posY (model (animate w a t))
          = lerp (posY (peak a)) (posY (origin a))
              (easeInOutQuad (clamp ((t - startAt a - 160) / 220) 0 1))"
    using assms(1) False d
    by (simp add: animate_def Let_def upDuration_def downDuration_def
        requestAnimationFrame_def setFallbackRafId_def lerpTransform_def)
  also have "\<dots> = posY (origin a) - 6
                  + 6 * easeInOutQuad (clamp ((t - startAt a - 160) / 220) 0 1)"
    using assms(2) by (simp add: lerp_def)
  also have "\<dots> < posY (origin a)" using e by simp
  finally show ?thesis .
qed

lemma animate_disposed: "disposed (state (animate w a t)) = disposed (state w)"
  by (simp add: animate_def Let_def requestAnimationFrame_def setFallbackRafId_def)

lemma fold_animate_disposed:
  "disposed (state (fold (\<lambda>(rid, a) v. animate v a t) q w)) = disposed (state w)"
  by (induction q arbitrary: w) (simp_all add: animate_disposed split: prod.split)

lemma runFrame_last:
  assumes "\<not> disposed (state w)" "rafQueue w = q @ [(rid, a)]"
    "posY (peak a) = posY (origin a) - 6" "startAt a < t" "t < startAt a + 380"
  shows "posY (model (runFrame w t)) < posY (origin a)"
proof -
  let ?v = "fold (\<lambda>(rid, a) v. animate v a t) q (w\<lparr>rafQueue := []\<rparr>)"
  have "\<not> disposed (state ?v)" using assms(1) by (simp add: fold_animate_disposed)
  then have "posY (model (animate ?v a t)) < posY (origin a)"
    using assms(3-5) by (rule animate_model)
  then show ?thesis using assms(2) by (simp add: runFrame_def)
qed

lemma triggerFallbackTween_queue:
  "\<exists>q rid. rafQueue (triggerFallbackTween w reason random now)
     = q @ [(rid, \<lparr>origin = model w,
                  peak = \<lparr>scaleX = scaleX (model w) * (1 + 8 / 100),
                          scaleY = scaleY (model w) * (1 - 6 / 100),
                          rotation = rotation (model w)
                            + (if random > 1 / 2 then 1 else - 1) * (8 / 100),
                          posX = posX (model w) + (if random > 1 / 2 then 1 else - 1) * 12,
                          posY = posY (model w) - 6\<rparr>,
                  startAt = now\<rparr>)]"
  by (simp add: triggerFallbackTween_def Let_def requestAnimationFrame_def
      setFallbackRafId_def cancelAnimationFrame_def split: option.split)

lemma triggerFallbackTween_state:
  "disposed (state (triggerFallbackTween w reason random now)) = disposed (state w)"
  "model (triggerFallbackTween w reason random now) = model w"
  by (simp_all add: triggerFallbackTween_def Let_def requestAnimationFrame_def
      setFallbackRafId_def cancelAnimationFrame_def split: option.split)

lemma triggerFallbackTween_visible:
  assumes "\<not> disposed (state w)" "now < t" "t < now + 380"
  shows "visibleReaction (triggerFallbackTween w reason random now) t"
proof -
  let ?w = "triggerFallbackTween w reason random now"
  obtain q rid a where q: "rafQueue ?w = q @ [(rid, a)]"
    and a: "origin a = model w" "posY (peak a) = posY (model w) - 6" "startAt a = now"
    using triggerFallbackTween_queue [of w reason random now] by fastforce
  have "posY (model (runFrame ?w t)) < posY (origin a)"
    using assms a by (intro runFrame_last [OF _ q]) (simp_all add: triggerFallbackTween_state)
  then show ?thesis
    by (simp add: visibleReaction_def triggerFallbackTween_state a)
qed



lemma restWorld_live: "\<not> disposed (state restWorld)" "registered restWorld"
  by (simp_all add: restWorld_def)

lemma ensureEngineState_live:
  "registered w \<longrightarrow> \<not> disposed (state w) \<Longrightarrow>
   \<not> disposed (state (ensureEngineState w motionMap dateNow))"
  by (simp add: ensureEngineState_def)

text \<open>
  Claim C1. Every failed dispatch starts the fallback tween with a reason, and the
  reaction is seen. A motion name that is missing (no mapping), a runtime call that
  answers false, and a runtime call that raises each end in \<open>triggerFallbackTween\<close>; and
  a key press whose key code has no binding in the motion map (nor an alias with one)
  starts a fallback tween through \<open>handleInput\<close>. In each case the tween's frame is
  requested with the reason logged, and on an engine that has not been disposed every
  rendering frame during the 380 ms of the tween moves the model away from where it
  rested. (\<open>handleInput\<close> creates a fresh engine state for a model that has none; a
  disposed state leaves the model as it is.) The engine dispatches motion names only.
\<close>

theorem dispatch_failure_triggers_fallback:
  assumes "now < t" "t < now + 380"
  shows
  "fallbackStarted (playMotionOrFallback w None reason runtime random now)
       (reason @ '' (no mapping)'')
   \<and> (\<not> disposed (state w) \<longrightarrow>
        visibleReaction (playMotionOrFallback w None reason runtime random now) t)
   \<and> (name \<noteq> [] \<and> runtime name = Resolved False \<longrightarrow>
        fallbackStarted (playMotionOrFallback w (Some name) reason runtime random now)
          (reason @ '' ('' @ name @ '' not started)'')
        \<and> (\<not> disposed (state w) \<longrightarrow>
             visibleReaction (playMotionOrFallback w (Some name) reason runtime random now) t))
   \<and> (name \<noteq> [] \<and> runtime name = Rejected \<longrightarrow>
        fallbackStarted (playMotionOrFallback w (Some name) reason runtime random now)
          (reason @ '' ('' @ name @ '' failed)'')
        \<and> (\<not> disposed (state w) \<longrightarrow>
             visibleReaction (playMotionOrFallback w (Some name) reason runtime random now) t))
   \<and> (type event = ''KeyPress'' \<and> keyCode event = Some kc \<and> trim kc \<noteq> [] \<and>
        resolveBindingMotion motionMap (trim kc) = None \<longrightarrow>
        fallbackStarted (handleInput event w motionMap dateNow runtime random now)
          (''keypress:'' @ trim kc @ '' (no mapping)'')
        \<and> ((registered w \<longrightarrow> \<not> disposed (state w)) \<longrightarrow>
             visibleReaction (handleInput event w motionMap dateNow runtime random now) t))"
  using assms
  by (simp add: playMotionOrFallback_def handleInput_def Let_def triggerFallbackTween_started
      triggerFallbackTween_visible ensureEngineState_live)

theorem dispatch_failure_triggers_fallback_witness:
  "\<not> disposed (state restWorld)
   \<and> fallbackStarted
       (playMotionOrFallback restWorld None ''idle'' (\<lambda>n. Resolved False) (3 / 4) 0)
       ''idle (no mapping)''
   \<and> visibleReaction
       (playMotionOrFallback restWorld None ''idle'' (\<lambda>n. Resolved False) (3 / 4) 0) 160
   \<and> fallbackStarted
       (playMotionOrFallback restWorld (Some ''tap_left'') ''keypress:KeyA''
          (\<lambda>n. Resolved False) (3 / 4) 0)
       ''keypress:KeyA (tap_left not started)''
   \<and> visibleReaction
       (playMotionOrFallback restWorld (Some ''tap_left'') ''keypress:KeyA''
          (\<lambda>n. Resolved False) (3 / 4) 0) 160
   \<and> fallbackStarted
       (playMotionOrFallback restWorld (Some ''tap_left'') ''keypress:KeyA''
          (\<lambda>n. Rejected) (3 / 4) 0)
       ''keypress:KeyA (tap_left failed)''
   \<and> visibleReaction
       (playMotionOrFallback restWorld (Some ''tap_left'') ''keypress:KeyA''
          (\<lambda>n. Rejected) (3 / 4) 0) 160
   \<and> fallbackStarted
       (handleInput (keyPress ''KeyZ'' 1000) restWorld DEFAULT_MOTION_MAP 1000
          (\<lambda>n. Resolved True) (3 / 4) 0)
       ''keypress:KeyZ (no mapping)''
   \<and> visibleReaction
       (handleInput (keyPress ''KeyZ'' 1000) restWorld DEFAULT_MOTION_MAP 1000
          (\<lambda>n. Resolved True) (3 / 4) 0) 160"
  using dispatch_failure_triggers_fallback
      [where now = 0 and t = 160 and w = restWorld and reason = "''idle''"
         and runtime = "\<lambda>n. Resolved False" and random = "3 / 4" and name = "''tap_left''"
         and event = "keyPress ''KeyZ'' 1000" and kc = "''KeyZ''"
         and motionMap = DEFAULT_MOTION_MAP and dateNow = 1000]
    dispatch_failure_triggers_fallback
      [where now = 0 and t = 160 and w = restWorld and reason = "''keypress:KeyA''"
         and runtime = "\<lambda>n. Resolved False" and random = "3 / 4" and name = "''tap_left''"
         and event = "keyPress ''KeyZ'' 1000" and kc = "''KeyZ''"
         and motionMap = DEFAULT_MOTION_MAP and dateNow = 1000]
    dispatch_failure_triggers_fallback
      [where now = 0 and t = 160 and w = restWorld and reason = "''keypress:KeyA''"
         and runtime = "\<lambda>n. Rejected" and random = "3 / 4" and name = "''tap_left''"
         and event = "keyPress ''KeyZ'' 1000" and kc = "''KeyZ''"
         and motionMap = DEFAULT_MOTION_MAP and dateNow = 1000]
    dispatch_failure_triggers_fallback
      [where now = 0 and t = 160 and w = restWorld and reason = "''idle''"
         and runtime = "\<lambda>n. Resolved True" and random = "3 / 4" and name = "''tap_left''"
         and event = "keyPress ''KeyZ'' 1000" and kc = "''KeyZ''"
         and motionMap = DEFAULT_MOTION_MAP and dateNow = 1000]
  by (simp add: keyPress_def trim_KeyZ KeyZ_unmapped restWorld_live)

text \<open>
  Claim C6. At the periodic check an idle action is dispatched exactly when the engine
  is neither disposed nor in the middle of an idle dispatch, the time since the last
  input is at least the idle timeout, and the time since the last idle dispatch is at
  least the idle timeout. The engine's settings hold the one timeout (\<open>idleTimeoutMs\<close>,
  clamped and rounded by \<open>resolveIdleTimeout\<close>) and no separate re-fire interval.
\<close>

theorem maybePlayIdle_gating:
  "(dispatches (maybePlayIdle w dateNow pick runtime random now) \<noteq> dispatches w) =
     (\<not> disposed (state w) \<and> \<not> idlePlaying (state w) \<and>
      dateNow - lastInputAt (state w) \<ge> resolveIdleTimeout (settings (state w)) \<and>
      dateNow - lastIdleAt (state w) \<ge> resolveIdleTimeout (settings (state w)))"
  by (auto simp add: maybePlayIdle_def Let_def playMotionOrFallback_dispatches)

lemma triggerFallbackTween_origin_is_current:
  "origin (snd (last (rafQueue (triggerFallbackTween w reason random now)))) = model w"
  by (simp add: triggerFallbackTween_def Let_def requestAnimationFrame_def
      setFallbackRafId_def cancelAnimationFrame_def split: option.split)

lemma triggerFallbackTween_single_frame:
  "rafQueue w = [] \<or> (\<exists>a. fallbackRafId (state w) = Some rid \<and> rafQueue w = [(rid, a)]) \<Longrightarrow>
   length (rafQueue (triggerFallbackTween w reason random now)) = 1"
  by (auto simp add: triggerFallbackTween_def Let_def requestAnimationFrame_def
      setFallbackRafId_def cancelAnimationFrame_def split: option.split)

text \<open>
  Claim C2, on \<open>triggerFallbackTween\<close>. The model rests at scale (1, 1), rotation 0,
  position (0, 0). Tween 1 starts at time 0 and the frame at time 160 puts the model at
  the tween's peak. Tween 2 starts there, at time 160: the pending frame of tween 1 is
  cancelled, so one frame only is pending, but the transform is not restored. When
  tween 2 has completed (frame at time 600) no tween is active and the model rests at
  the peak of tween 1, not at its original transform.
\<close>

theorem triggerFallbackTween_supersede_ends_at_intermediate:
  "model (runFrame (triggerFallbackTween (runFrame (triggerFallbackTween restWorld
       ''first'' (3 / 4) 0) 160) ''second'' (3 / 4) 160) 600)
     = \<lparr>scaleX = 108 / 100, scaleY = 94 / 100, rotation = 8 / 100, posX = 12, posY = - 6\<rparr>
   \<and> model restWorld = \<lparr>scaleX = 1, scaleY = 1, rotation = 0, posX = 0, posY = 0\<rparr>
   \<and> fallbackRafId (state (runFrame (triggerFallbackTween (runFrame (triggerFallbackTween
       restWorld ''first'' (3 / 4) 0) 160) ''second'' (3 / 4) 160) 600)) = None
   \<and> length (rafQueue (triggerFallbackTween (runFrame (triggerFallbackTween restWorld
       ''first'' (3 / 4) 0) 160) ''second'' (3 / 4) 160)) = 1"
  by (simp add: restWorld_def runFrame_def triggerFallbackTween_def animate_def Let_def
      requestAnimationFrame_def setFallbackRafId_def cancelAnimationFrame_def upDuration_def
      downDuration_def lerpTransform_def lerp_def easeOutCubic_def clamp_def)

section \<open>Properties of the frame scheduler\<close>

lemma runStage_simps [simp]:
  "runStage s [] = s"
  "runStage s (st # steps) = runStage (stageStep s st) steps"
  by (simp_all add: runStage_def)

lemma scheduleInputFrame_fields [simp]:
  "pendingDiscreteInput (scheduleInputFrame s) = pendingDiscreteInput s"
  "pendingMouseMove (scheduleInputFrame s) = pendingMouseMove s"
  "modelLoaded (scheduleInputFrame s) = modelLoaded s"
  "calls (scheduleInputFrame s) = calls s"
  "inputFrame (scheduleInputFrame s) \<noteq> None"
  by (simp_all add: scheduleInputFrame_def)

lemma scheduleInputFrame_once:
  "inputFrame s \<noteq> None \<Longrightarrow> scheduleInputFrame s = s"
  by (simp add: scheduleInputFrame_def)

lemma onGlobalInput_queue:
  "pendingDiscreteInput (onGlobalInput s p) =
     (if isDiscrete p then
        (if length (pendingDiscreteInput s) \<ge> QUEUE_CAP then tl (pendingDiscreteInput s)
         else pendingDiscreteInput s) @ [p]
      else pendingDiscreteInput s)"
  by (simp add: onGlobalInput_def isDiscrete_def Let_def)

lemma onGlobalInput_mouse:
  "pendingMouseMove (onGlobalInput s p) = (if isDiscrete p then pendingMouseMove s else Some p)"
  by (simp add: onGlobalInput_def isDiscrete_def Let_def)

lemma onGlobalInput_bounded:
  "length (pendingDiscreteInput s) \<le> QUEUE_CAP \<Longrightarrow>
   length (pendingDiscreteInput (onGlobalInput s p)) \<le> QUEUE_CAP"
  by (auto simp add: onGlobalInput_queue QUEUE_CAP_def)

lemma flush_queue [simp]:
  "pendingDiscreteInput (flushInputInAnimationFrame s) = []"
  "pendingMouseMove (flushInputInAnimationFrame s) = None"
  "inputFrame (flushInputInAnimationFrame s) = None"
  by (simp_all add: flushInputInAnimationFrame_def Let_def split: option.split)

lemma stageStep_bounded:
  "length (pendingDiscreteInput s) \<le> QUEUE_CAP \<Longrightarrow>
   length (pendingDiscreteInput (stageStep s st)) \<le> QUEUE_CAP"
  by (cases st) (simp_all add: onGlobalInput_bounded)

lemma runStage_bounded:
  "length (pendingDiscreteInput s) \<le> QUEUE_CAP \<Longrightarrow>
   length (pendingDiscreteInput (runStage s steps)) \<le> QUEUE_CAP"
  by (induction steps arbitrary: s) (simp_all add: stageStep_bounded)


lemma arrivals_queue:
  "length (pendingDiscreteInput s) \<le> QUEUE_CAP \<Longrightarrow>
   pendingDiscreteInput (runStage s (map Arrive ps)) =
     drop (length (pendingDiscreteInput s @ filter isDiscrete ps) - QUEUE_CAP)
       (pendingDiscreteInput s @ filter isDiscrete ps)"
proof (induction ps arbitrary: s)
  case Nil
  then show ?case by simp
next
  case (Cons p ps)
  have b: "length (pendingDiscreteInput (onGlobalInput s p)) \<le> QUEUE_CAP"
    using Cons.prems by (rule onGlobalInput_bounded)
  show ?case
  proof (cases "isDiscrete p")
    case False
    then show ?thesis
      using Cons.IH [OF b] by (simp add: onGlobalInput_queue)
  next
    case True
    show ?thesis
    proof (cases "length (pendingDiscreteInput s) \<ge> QUEUE_CAP")
      case full: True
      then have len: "length (pendingDiscreteInput s) = QUEUE_CAP"
        using Cons.prems by simp
      then have ne: "pendingDiscreteInput s \<noteq> []"
        by (auto simp add: QUEUE_CAP_def)
      then obtain q qs where q: "pendingDiscreteInput s = q # qs"
        by (cases "pendingDiscreteInput s") auto
      show ?thesis
        using Cons.IH [OF b] True full len q
        by (simp add: onGlobalInput_queue Suc_diff_le)
    next
      case notfull: False
      show ?thesis
        using Cons.IH [OF b] True notfull
        by (simp add: onGlobalInput_queue)
    qed
  qed
qed

lemma arrivals_mouse:
  "pendingMouseMove (runStage s (map Arrive ps)) = lastMouseMove (pendingMouseMove s) ps"
proof (induction ps arbitrary: s)
  case Nil
  then show ?case by (simp add: lastMouseMove_def)
next
  case (Cons p ps)
  show ?case
    by (simp add: Cons.IH onGlobalInput_mouse lastMouseMove_def split: list.split)
qed

lemma arrivals_loaded:
  "modelLoaded (runStage s (map Arrive ps)) = modelLoaded s"
  "calls (runStage s (map Arrive ps)) = calls s"
  by (induction ps arbitrary: s) (simp_all add: onGlobalInput_def Let_def)

lemma onGlobalInput_scheduled: "inputFrame (onGlobalInput s p) \<noteq> None"
  by (simp add: onGlobalInput_def Let_def scheduleInputFrame_def)

lemma arrivals_keep_scheduled:
  "inputFrame s \<noteq> None \<Longrightarrow> inputFrame (runStage s (map Arrive ps)) \<noteq> None"
proof (induction ps arbitrary: s)
  case Nil
  then show ?case by simp
next
  case (Cons p ps)
  have "inputFrame (onGlobalInput s p) \<noteq> None" by (rule onGlobalInput_scheduled)
  from Cons.IH [OF this] show ?case by simp
qed

lemma arrivals_scheduled:
  assumes "ps \<noteq> []"
  shows "inputFrame (runStage s (map Arrive ps)) \<noteq> None"
proof (cases ps)
  case Nil
  with assms show ?thesis by simp
next
  case (Cons p qs)
  have "inputFrame (onGlobalInput s p) \<noteq> None" by (rule onGlobalInput_scheduled)
  from arrivals_keep_scheduled [OF this] show ?thesis using Cons by simp
qed

lemma arrivals_requested_once:
  "inputFrame s \<noteq> None \<Longrightarrow> requested (runStage s (map Arrive ps)) = requested s"
proof (induction ps arbitrary: s)
  case Nil
  then show ?case by simp
next
  case (Cons p ps)
  have a: "inputFrame (onGlobalInput s p) \<noteq> None" by (rule onGlobalInput_scheduled)
  have b: "requested (onGlobalInput s p) = requested s"
    using Cons.prems by (simp add: onGlobalInput_def Let_def scheduleInputFrame_def)
  from Cons.IH [OF a] b show ?case by simp
qed

lemma flush_calls:
  "modelLoaded s \<Longrightarrow>
   calls (flushInputInAnimationFrame s) =
     calls s @ map HandleInput (pendingDiscreteInput s) @
       (case pendingMouseMove s of None \<Rightarrow> [] | Some m \<Rightarrow> mouseCalls m)"
  by (simp add: flushInputInAnimationFrame_def Let_def split: option.split)

lemma runStage_append: "runStage s (xs @ ys) = runStage (runStage s xs) ys"
  by (simp add: runStage_def)

lemma onGlobalInput_requested:
  "inputFrame s = None \<Longrightarrow> requested (onGlobalInput s p) = Suc (requested s)"
  by (simp add: onGlobalInput_def Let_def scheduleInputFrame_def)

lemma arrivals_requested:
  assumes "inputFrame s = None" "ps \<noteq> []"
  shows "requested (runStage s (map Arrive ps)) = Suc (requested s)"
proof (cases ps)
  case Nil
  with assms show ?thesis by simp
next
  case (Cons p qs)
  have "inputFrame (onGlobalInput s p) \<noteq> None" by (rule onGlobalInput_scheduled)
  from arrivals_requested_once [OF this, of qs] onGlobalInput_requested [OF assms(1), of p]
  show ?thesis using Cons by simp
qed

lemma flush_requested: "requested (flushInputInAnimationFrame s) = requested s"
  by (simp add: flushInputInAnimationFrame_def Let_def split: option.split)

lemma frame_after_arrivals:
  assumes "modelLoaded s" "inputFrame s = None" "pendingDiscreteInput s = []"
    "pendingMouseMove s = None" "ps \<noteq> []"
  shows "calls (runStage s (map Arrive ps @ [Frame])) =
           calls s @
           map HandleInput
             (drop (length (filter isDiscrete ps) - QUEUE_CAP) (filter isDiscrete ps)) @
           (case lastMouseMove None ps of None \<Rightarrow> [] | Some m \<Rightarrow> mouseCalls m)"
    and "pendingDiscreteInput (runStage s (map Arrive ps @ [Frame])) = []"
    and "pendingMouseMove (runStage s (map Arrive ps @ [Frame])) = None"
    and "requested (runStage s (map Arrive ps @ [Frame])) = Suc (requested s)"
proof -
  let ?s1 = "runStage s (map Arrive ps)"
  have q: "pendingDiscreteInput ?s1 =
      drop (length (filter isDiscrete ps) - QUEUE_CAP) (filter isDiscrete ps)"
    using arrivals_queue [of s ps] assms(3) by simp
  have m: "pendingMouseMove ?s1 = lastMouseMove None ps"
    using arrivals_mouse [of s ps] assms(4) by simp
  have l: "modelLoaded ?s1" and c: "calls ?s1 = calls s"
    using assms(1) by (simp_all add: arrivals_loaded)
  have f: "inputFrame ?s1 \<noteq> None"
    using assms(5) by (rule arrivals_scheduled)
  have r: "requested ?s1 = Suc (requested s)"
    using assms(2,5) by (rule arrivals_requested)
  have step: "runStage s (map Arrive ps @ [Frame]) = flushInputInAnimationFrame ?s1"
    using f by (auto simp add: runStage_append)
  show "calls (runStage s (map Arrive ps @ [Frame])) =
           calls s @
           map HandleInput
             (drop (length (filter isDiscrete ps) - QUEUE_CAP) (filter isDiscrete ps)) @
           (case lastMouseMove None ps of None \<Rightarrow> [] | Some m \<Rightarrow> mouseCalls m)"
    using flush_calls [OF l] by (simp add: step q m c)
  show "pendingDiscreteInput (runStage s (map Arrive ps @ [Frame])) = []"
    and "pendingMouseMove (runStage s (map Arrive ps @ [Frame])) = None"
    by (simp_all add: step)
  show "requested (runStage s (map Arrive ps @ [Frame])) = Suc (requested s)"
    by (simp add: step flush_requested r)
qed

text \<open>
  Claim C9. Whatever events arrive and whenever frames are rendered, the queue of
  discrete events holds at most 120 entries; a discrete event arriving at a full queue
  discards the oldest entry and is appended; a pointer-move sample replaces the pending
  sample and is never queued; and the frame that follows a burst of arrivals is the one
  frame requested for it, hands on the queued discrete events in arrival order, then
  the latest pointer sample alone, and leaves nothing pending.
\<close>

theorem frame_scheduler_bounded_ordered_coalesced:
  "length (pendingDiscreteInput (runStage initialStage steps)) \<le> QUEUE_CAP
   \<and> (isDiscrete p \<and> length (pendingDiscreteInput s) = QUEUE_CAP \<longrightarrow>
        pendingDiscreteInput (onGlobalInput s p) = tl (pendingDiscreteInput s) @ [p])
   \<and> (\<not> isDiscrete p \<longrightarrow>
        pendingDiscreteInput (onGlobalInput s p) = pendingDiscreteInput s \<and>
        pendingMouseMove (onGlobalInput s p) = Some p)
   \<and> (modelLoaded s \<and> inputFrame s = None \<and> pendingDiscreteInput s = [] \<and>
        pendingMouseMove s = None \<and> ps \<noteq> [] \<longrightarrow>
        calls (runStage s (map Arrive ps @ [Frame])) =
          calls s @
          map HandleInput
            (drop (length (filter isDiscrete ps) - QUEUE_CAP) (filter isDiscrete ps)) @
          (case lastMouseMove None ps of None \<Rightarrow> [] | Some m \<Rightarrow> mouseCalls m)
        \<and> pendingDiscreteInput (runStage s (map Arrive ps @ [Frame])) = []
        \<and> pendingMouseMove (runStage s (map Arrive ps @ [Frame])) = None
        \<and> requested (runStage s (map Arrive ps @ [Frame])) = Suc (requested s))"
proof -
  have "length (pendingDiscreteInput (runStage initialStage steps)) \<le> QUEUE_CAP"
    by (rule runStage_bounded) (simp add: initialStage_def)
  moreover have "isDiscrete p \<and> length (pendingDiscreteInput s) = QUEUE_CAP \<longrightarrow>
        pendingDiscreteInput (onGlobalInput s p) = tl (pendingDiscreteInput s) @ [p]"
    by (simp add: onGlobalInput_queue)
  moreover have "\<not> isDiscrete p \<longrightarrow>
        pendingDiscreteInput (onGlobalInput s p) = pendingDiscreteInput s \<and>
        pendingMouseMove (onGlobalInput s p) = Some p"
    by (simp add: onGlobalInput_queue onGlobalInput_mouse)
  ultimately show ?thesis
    using frame_after_arrivals [of s ps] by blast
qed

theorem frame_scheduler_bounded_ordered_coalesced_witness:
  "isDiscrete (keyPress ''KeyD'' 1)
   \<and> length (pendingDiscreteInput fullStage) = QUEUE_CAP
   \<and> pendingDiscreteInput (onGlobalInput fullStage (keyPress ''KeyD'' 1))
       = tl (pendingDiscreteInput fullStage) @ [keyPress ''KeyD'' 1]
   \<and> \<not> isDiscrete (mouseMove 5 6 2)
   \<and> pendingDiscreteInput (onGlobalInput fullStage (mouseMove 5 6 2))
       = pendingDiscreteInput fullStage
   \<and> pendingMouseMove (onGlobalInput fullStage (mouseMove 5 6 2)) = Some (mouseMove 5 6 2)
   \<and> calls (runStage initialStage
        (map Arrive [keyPress ''KeyA'' 0, mouseMove 1 1 1, keyPress ''KeyD'' 2, mouseMove 2 2 3]
         @ [Frame]))
       = [HandleInput (keyPress ''KeyA'' 0), HandleInput (keyPress ''KeyD'' 2),
          HandleInput (mouseMove 2 2 3), HandleMouseMove (Finite 2) (Finite 2)]"
  using frame_scheduler_bounded_ordered_coalesced
      [of "[]" "keyPress ''KeyD'' 1" fullStage
          "[keyPress ''KeyA'' 0, mouseMove 1 1 1, keyPress ''KeyD'' 2, mouseMove 2 2 3]"]
    frame_scheduler_bounded_ordered_coalesced
      [of "[]" "mouseMove 5 6 2" fullStage
          "[keyPress ''KeyA'' 0, mouseMove 1 1 1, keyPress ''KeyD'' 2, mouseMove 2 2 3]"]
    frame_scheduler_bounded_ordered_coalesced
      [of "[]" "mouseMove 5 6 2" initialStage
          "[keyPress ''KeyA'' 0, mouseMove 1 1 1, keyPress ''KeyD'' 2, mouseMove 2 2 3]"]
  by (simp add: fullStage_def initialStage_def isDiscrete_def keyPress_def mouseMove_def
      QUEUE_CAP_def lastMouseMove_def mouseCalls_def)

section \<open>Properties of the combo detector\<close>

lemma comboMatches_tail:
  assumes "sequence rule = map fst evs" "evs \<noteq> []" "withinMs rule = Finite w"
  shows "comboMatches rule (pre @ evs) = (snd (last evs) - snd (hd evs) \<le> w)"
proof -
  have "take (length (sequence rule)) (rev (pre @ evs)) = rev evs"
    using assms(1) by simp
  then show ?thesis
    using assms by (simp add: comboMatches_def Let_def rev_map hd_rev last_rev)
qed

lemma comboStep_single:
  assumes "sequence rule = map fst (evs @ [e])" "evs \<noteq> []" "withinMs rule = Finite w"
    "length (evs @ [e]) \<le> cap"
  shows "fst (comboStep [rule] cap (pre @ evs) e) =
           (if snd e - snd (hd evs) \<le> w then Some rule else None)"
proof -
  let ?all = "pre @ evs @ [e]"
  have "drop (length ?all - cap) ?all = drop (length ?all - cap) pre @ evs @ [e]"
    using assms(4) by simp
  moreover have "comboMatches rule (drop (length ?all - cap) pre @ (evs @ [e]))
      = (snd (last (evs @ [e])) - snd (hd (evs @ [e])) \<le> w)"
    by (rule comboMatches_tail) (use assms in simp_all)
  ultimately show ?thesis
    using assms(2) by (simp add: comboStep_def Let_def)
qed

text \<open>
  Claim C5. When the most recent inputs are those of a rule's sequence, the rule
  matches, and the detector fires it, exactly when the last matched event is at most
  \<open>withinMs\<close> after the first: a span equal to \<open>withinMs\<close> matches and a span of
  \<open>withinMs + 1\<close> does not.
\<close>

theorem combo_fires_iff_within:
  "sequence rule = map fst (evs @ [e]) \<and> evs \<noteq> [] \<and> withinMs rule = Finite w \<and>
   length (evs @ [e]) \<le> cap \<longrightarrow>
     comboMatches rule (pre @ evs @ [e]) = (snd e - snd (hd evs) \<le> w)
     \<and> fst (comboStep [rule] cap (pre @ evs) e) =
         (if snd e - snd (hd evs) \<le> w then Some rule else None)
     \<and> (snd e - snd (hd evs) = w \<longrightarrow> comboMatches rule (pre @ evs @ [e]))
     \<and> (snd e - snd (hd evs) = w + 1 \<longrightarrow> \<not> comboMatches rule (pre @ evs @ [e]))"
proof (intro impI)
  assume a: "sequence rule = map fst (evs @ [e]) \<and> evs \<noteq> [] \<and> withinMs rule = Finite w \<and>
    length (evs @ [e]) \<le> cap"
  have m: "comboMatches rule (pre @ (evs @ [e])) = (snd (last (evs @ [e])) - snd (hd (evs @ [e])) \<le> w)"
    by (rule comboMatches_tail) (use a in simp_all)
  have s: "fst (comboStep [rule] cap (pre @ evs) e) =
      (if snd e - snd (hd evs) \<le> w then Some rule else None)"
    by (rule comboStep_single) (use a in simp_all)
  from a m s show "comboMatches rule (pre @ evs @ [e]) = (snd e - snd (hd evs) \<le> w)
     \<and> fst (comboStep [rule] cap (pre @ evs) e) =
         (if snd e - snd (hd evs) \<le> w then Some rule else None)
     \<and> (snd e - snd (hd evs) = w \<longrightarrow> comboMatches rule (pre @ evs @ [e]))
     \<and> (snd e - snd (hd evs) = w + 1 \<longrightarrow> \<not> comboMatches rule (pre @ evs @ [e]))"
    by simp
qed

theorem combo_fires_iff_within_witness:
  "comboMatches burstRule [(''KeyA'', 0), (''KeyD'', 250)]
   \<and> \<not> comboMatches burstRule [(''KeyA'', 0), (''KeyD'', 251)]
   \<and> fst (comboStep [burstRule] 8 [(''KeyA'', 0)] (''KeyD'', 200)) = Some burstRule
   \<and> comboStep [burstRule] 8 [(''KeyA'', 0)] (''KeyD'', 300)
       = (None, [(''KeyA'', 0), (''KeyD'', 300)])"
  using combo_fires_iff_within [of burstRule "[(''KeyA'', 0)]" "(''KeyD'', 250)" 250 8 "[]"]
    combo_fires_iff_within [of burstRule "[(''KeyA'', 0)]" "(''KeyD'', 251)" 250 8 "[]"]
    combo_fires_iff_within [of burstRule "[(''KeyA'', 0)]" "(''KeyD'', 200)" 250 8 "[]"]
    combo_fires_iff_within [of burstRule "[(''KeyA'', 0)]" "(''KeyD'', 300)" 250 8 "[]"]
  by (simp add: burstRule_def comboStep_def comboMatches_def Let_def)

section \<open>Properties of the tween presets\<close>

subsection \<open>Rounding to the nearest double\<close>

lemma fl_zero [simp]: "fl 0 = 0"
  by (simp add: fl_def)

lemma roundTiesToEven_of_int [simp]: "roundTiesToEven (of_int n) = n"
  by (simp add: roundTiesToEven_def)

lemma roundTiesToEven_ge:
  assumes "of_int n \<le> x"
  shows "n \<le> roundTiesToEven x"
proof -
  have "n \<le> \<lfloor>x\<rfloor>" using assms by (simp add: le_floor_iff)
  then show ?thesis by (simp add: roundTiesToEven_def Let_def)
qed

lemma roundTiesToEven_minus: "roundTiesToEven (- x) = - roundTiesToEven x"
proof (cases "x \<in> \<int>")
  case True
  then obtain n where "x = of_int n" by (auto elim: Ints_cases)
  then have "- x = of_int (- n)" by simp
  then show ?thesis using \<open>x = of_int n\<close> by (simp only: roundTiesToEven_of_int)
next
  case False
  then have ne: "x \<noteq> of_int \<lfloor>x\<rfloor>" by (metis Ints_of_int)
  then have fm: "\<lfloor>- x\<rfloor> = - \<lfloor>x\<rfloor> - 1"
    by (simp add: floor_minus ceiling_altdef)
  define r where "r = x - of_int \<lfloor>x\<rfloor>"
  have r: "0 < r" "r < 1"
    using ne of_int_floor_le [of x] unfolding r_def by linarith+
  have r': "- x - of_int \<lfloor>- x\<rfloor> = 1 - r" by (simp add: fm r_def)
  show ?thesis
    unfolding roundTiesToEven_def Let_def r' r_def [symmetric]
    using r by (auto simp add: fm)
qed

lemma ulp_pos: "0 < ulp x"
  by (simp add: ulp_def)

lemma ulp_minus [simp]: "ulp (- x) = ulp x"
  by (simp add: ulp_def)

lemma fl_minus: "fl (- x) = - fl x"
  by (simp add: fl_def roundTiesToEven_minus)

lemma ulp_eq:
  assumes "2 powr of_int e \<le> \<bar>x\<bar>" "\<bar>x\<bar> < 2 powr (of_int e + 1)" "- 1022 \<le> e"
  shows "ulp x = 2 powr (of_int e - 52)"
proof -
  have "0 < \<bar>x\<bar>" using assms(1) powr_gt_zero [of 2 "of_int e"] by linarith
  then have "\<lfloor>log 2 \<bar>x\<bar>\<rfloor> = e"
    using assms(1,2) by (simp add: floor_log_eq_powr_iff)
  then show ?thesis using assms(3) by (simp add: ulp_def max_def)
qed

lemma fl_grid:
  assumes "2 powr of_int e \<le> \<bar>x\<bar>" "\<bar>x\<bar> < 2 powr (of_int e + 1)" "- 1022 \<le> e"
    "x = of_int m * 2 powr (of_int e - 52)"
  shows "fl x = x"
proof -
  have u: "ulp x = 2 powr (of_int e - 52)" using assms(1-3) by (rule ulp_eq)
  have "x / ulp x = of_int m" unfolding u using assms(4) by simp
  then have "fl x = (if x = 0 then 0 else of_int m * ulp x)"
    by (simp add: fl_def)
  then show ?thesis using assms(4) u by simp
qed

lemma fl_one [simp]: "fl 1 = 1"
  by (rule fl_grid [where e = 0 and m = "2 ^ 52"]) (simp_all add: powr_minus)

lemma fl_lower:
  assumes "2 powr of_int k \<le> x" "- 1022 \<le> k"
  shows "2 powr of_int k \<le> fl x"
proof -
  have x: "0 < x" using assms(1) powr_gt_zero [of 2 "of_int k"] by linarith
  define e where "e = \<lfloor>log 2 x\<rfloor>"
  have e: "2 powr of_int e \<le> x" "x < 2 powr (of_int e + 1)"
    using x floor_log_eq_powr_iff [of x 2 e] by (simp_all add: e_def)
  have "of_int k \<le> log 2 x" using assms(1) x by (simp add: le_log_iff)
  then have ke: "k \<le> e" by (simp add: e_def le_floor_iff)
  then have u: "ulp x = 2 powr (of_int e - 52)"
    using e assms(2) x by (intro ulp_eq) simp_all
  have "2 powr 52 \<le> x / ulp x"
    unfolding u using e(1) by (simp add: powr_diff field_simps)
  then have "of_int (2 ^ 52) \<le> x / ulp x" by simp
  then have "2 ^ 52 \<le> roundTiesToEven (x / ulp x)" by (rule roundTiesToEven_ge)
  then have "(2::real) ^ 52 \<le> of_int (roundTiesToEven (x / ulp x))"
    by (metis of_int_le_iff of_int_numeral of_int_power)
  then have "2 ^ 52 * ulp x \<le> fl x"
    using x ulp_pos [of x] by (simp add: fl_def)
  moreover have "2 ^ 52 * ulp x = 2 powr of_int e"
    unfolding u by (simp add: powr_diff)
  ultimately have a: "2 powr of_int e \<le> fl x" by simp
  have b: "(2::real) powr of_int k \<le> 2 powr of_int e" using ke by simp
  from b a show ?thesis by (rule order_trans)
qed

subsection \<open>The sine of \<open>Math.PI\<close>\<close>

text \<open>
  \<open>Math.PI\<close> lies below \<open>\<pi>\<close> by more than \<open>2 ^ (- 54)\<close>: Machin's formula with twelve terms
  of the series for \<open>arctan (1 / 5)\<close> and three for \<open>arctan (1 / 239)\<close> bounds \<open>\<pi>\<close> from
  below. So the sine of \<open>Math.PI\<close> is not 0 but at least \<open>2 ^ (- 55)\<close>, and so is the double
  that \<open>Math.sin\<close> returns.
\<close>

lemma arctan_bounds:
  assumes "0 \<le> x" "x \<le> 1"
  shows "arctanTerms x (2 * n) \<le> arctan x" and "arctan x \<le> arctanTerms x (2 * n + 1)"
proof -
  let ?a = "\<lambda>n. 1 / real (n * 2 + 1) * x ^ (n * 2 + 1)"
  have z: "?a \<longlonglongrightarrow> 0" using assms by (intro zeroseq_arctan_series) simp
  have p: "\<And>n. 0 \<le> ?a n" using assms(1) by simp
  have m: "\<And>n. ?a (Suc n) \<le> ?a n"
  proof -
    fix n
    have "x ^ (Suc n * 2 + 1) \<le> x ^ (n * 2 + 1)"
      using assms by (intro power_decreasing) simp_all
    moreover have "1 / real (Suc n * 2 + 1) \<le> 1 / real (n * 2 + 1)"
      by (intro divide_left_mono) simp_all
    ultimately show "?a (Suc n) \<le> ?a n"
      using assms(1) by (intro mult_mono) simp_all
  qed
  have s: "arctan x = (\<Sum>k. (- 1) ^ k * ?a k)"
    using assms by (intro arctan_series) simp
  show "arctanTerms x (2 * n) \<le> arctan x"
    unfolding s arctanTerms_def by (rule summable_Leibniz'(2) [OF z p m])
  show "arctan x \<le> arctanTerms x (2 * n + 1)"
    unfolding s arctanTerms_def by (rule summable_Leibniz'(4) [OF z p m])
qed

lemma pi_lower: "16 * arctanTerms (1 / 5) 12 - 4 * arctanTerms (1 / 239) 3 \<le> pi"
proof -
  have "arctanTerms (1 / 5) (2 * 6) \<le> arctan (1 / 5)"
    by (rule arctan_bounds) simp_all
  moreover have "arctan (1 / 239) \<le> arctanTerms (1 / 239) (2 * 1 + 1)"
    by (rule arctan_bounds) simp_all
  moreover have "pi = 16 * arctan (1 / 5) - 4 * arctan (1 / 239)"
    using machin by simp
  ultimately show ?thesis by simp
qed

lemma arctanTerms_5: "arctanTerms (1 / 5) 12
  = 1 / 5 - 1 / (3 * 5 ^ 3) + 1 / (5 * 5 ^ 5) - 1 / (7 * 5 ^ 7) + 1 / (9 * 5 ^ 9)
    - 1 / (11 * 5 ^ 11) + 1 / (13 * 5 ^ 13) - 1 / (15 * 5 ^ 15) + 1 / (17 * 5 ^ 17)
    - 1 / (19 * 5 ^ 19) + 1 / (21 * 5 ^ 21) - 1 / (23 * 5 ^ 23)"
  by (simp add: arctanTerms_def eval_nat_numeral)

lemma arctanTerms_239: "arctanTerms (1 / 239) 3
  = 1 / 239 - 1 / (3 * 239 ^ 3) + 1 / (5 * 239 ^ 5)"
  by (simp add: arctanTerms_def eval_nat_numeral)

lemma Math_PI_less_pi: "Math_PI + 1 / 2 ^ 54 \<le> pi"
proof -
  have "Math_PI + 1 / 2 ^ 54 \<le> 16 * arctanTerms (1 / 5) 12 - 4 * arctanTerms (1 / 239) 3"
    unfolding arctanTerms_5 arctanTerms_239 Math_PI_def by simp
  then show ?thesis using pi_lower by (rule order_trans)
qed

lemma pi_ge_3: "3 \<le> pi"
  using Math_PI_less_pi by (simp add: Math_PI_def)

lemma cos_ge_half:
  fixes u :: real
  assumes "0 \<le> u" "u \<le> 1"
  shows "1 / 2 \<le> cos u"
proof -
  have "u \<le> pi / 3" using assms(2) pi_ge_3 by simp
  then have "cos (pi / 3) \<le> cos u"
    using assms(1) by (intro cos_monotone_0_pi_le) simp_all
  then show ?thesis by (simp add: cos_60)
qed

lemma sin_ge_half:
  fixes x :: real
  assumes "0 \<le> x" "x \<le> 1"
  shows "x / 2 \<le> sin x"
proof -
  let ?f = "\<lambda>u. sin u - u / 2"
  have "?f 0 \<le> ?f x"
  proof (rule DERIV_nonneg_imp_nondecreasing [of 0 x ?f, OF assms(1)])
    fix u assume "0 \<le> u" "u \<le> x"
    then have "1 / 2 \<le> cos u" using assms(2) by (intro cos_ge_half) simp_all
    moreover have "(?f has_real_derivative cos u - 1 / 2) (at u)"
      by (auto intro!: derivative_eq_intros)
    ultimately show "\<exists>y. (?f has_real_derivative y) (at u) \<and> 0 \<le> y"
      by (intro exI [of _ "cos u - 1 / 2"]) simp
  qed
  then show ?thesis by simp
qed

lemma Math_PI_range: "3 < Math_PI" "Math_PI < 4"
  by (simp_all add: Math_PI_def)

lemma sin_Math_PI: "1 / 2 ^ 55 \<le> sin Math_PI"
proof -
  have a: "1 / 2 ^ 54 \<le> pi - Math_PI" using Math_PI_less_pi by simp
  have b: "pi - Math_PI \<le> 1" using pi_less_4 Math_PI_range by simp
  have "(0::real) \<le> 1 / 2 ^ 54" by simp
  then have "0 \<le> pi - Math_PI" using a by linarith
  then have "(pi - Math_PI) / 2 \<le> sin (pi - Math_PI)" using b by (rule sin_ge_half)
  moreover have "1 / 2 ^ 55 \<le> (pi - Math_PI) / 2" using a by simp
  ultimately show ?thesis by simp
qed

lemma powr_neg_nat: "(2::real) powr (- real n) = 1 / 2 ^ n"
  by (simp add: powr_minus powr_realpow inverse_eq_divide)

lemma powr_2_51: "(2::real) powr (- 51) = 1 / 2 ^ 51"
  using powr_neg_nat [of 51] by simp

lemma fl_Math_PI: "fl Math_PI = Math_PI"
proof (rule fl_grid [where e = 1 and m = "7074237752028440"])
  show "2 powr real_of_int 1 \<le> \<bar>Math_PI\<bar>" by (simp add: Math_PI_def)
  show "\<bar>Math_PI\<bar> < 2 powr (real_of_int 1 + 1)" by (simp add: Math_PI_def)
  show "- 1022 \<le> (1::int)" by simp
  have "real_of_int 1 - 52 = - 51" by simp
  then show "Math_PI = real_of_int 7074237752028440 * 2 powr (real_of_int 1 - 52)"
    by (simp only: powr_2_51) (simp add: Math_PI_def)
qed

lemma Math_sin_Math_PI: "2 powr (- 55) \<le> Math_sin Math_PI"
proof -
  have "(2::real) powr of_int (- 55) = 1 / 2 ^ 55"
    using powr_neg_nat [of 55] by simp
  then have "2 powr of_int (- 55) \<le> sin Math_PI"
    using sin_Math_PI by simp
  then have "2 powr of_int (- 55) \<le> fl (sin Math_PI)" by (rule fl_lower) simp
  then show ?thesis by (simp add: Math_sin_def)
qed

subsection \<open>The strength\<close>

lemma powr_2_neg_numeral: "(2::real) powr (- numeral n) = 1 / 2 ^ numeral n"
  using powr_neg_nat [of "numeral n"] by simp

lemma fl_5_100: "fl (1 / 20) = 3602879701896397 / 2 ^ 56"
proof -
  have "ulp (1 / 20) = 2 powr (of_int (- 5) - 52)"
    by (rule ulp_eq) (simp_all add: powr_2_neg_numeral)
  also have "\<dots> = 1 / 2 ^ 57"
    using powr_neg_nat [of 57] by simp
  finally have u: "ulp (1 / 20) = 1 / 2 ^ 57" .
  have r: "roundTiesToEven (1 / 20 / (1 / 2 ^ 57)) = 7205759403792794"
    by (simp add: roundTiesToEven_def Let_def)
  have "fl (1 / 20) = of_int (roundTiesToEven (1 / 20 / (1 / 2 ^ 57))) * (1 / 2 ^ 57)"
    by (simp only: fl_def u) simp
  also have "\<dots> = 3602879701896397 / 2 ^ 56"
    by (simp only: r) simp
  finally show ?thesis .
qed

lemma resolveStrength_range:
  "fl (5 / 100) \<le> resolveStrength rawStrength \<and> resolveStrength rawStrength \<le> 3"
  by (auto simp add: resolveStrength_def clamp_def min_def max_def fl_5_100
      split: option.split number.split)

lemma resolveStrength_default: "resolveStrength None = 1"
  by (simp add: resolveStrength_def clamp_def fl_5_100)

subsection \<open>The frames at progress 0 and 1\<close>

lemma applyFrame_start:
  assumes "doubles orig"
  shows "applyFrame preset 0 strength orig = orig"
  using assms
  by (cases preset)
    (simp_all add: applyFrame_def doubles_def isDouble_def fmul_def fadd_def fsub_def
      Math_sin_def)

lemma applyFrame_shake_end:
  assumes "doubles orig"
  shows "applyFrame Shake 1 strength orig = orig"
  using assms
  by (simp add: applyFrame_def doubles_def isDouble_def fmul_def fadd_def fsub_def Let_def)

lemma applyFrame_nod_end:
  assumes "doubles orig"
  shows "applyFrame Nod 1 strength orig = orig"
  using assms
  by (simp add: applyFrame_def doubles_def isDouble_def fmul_def fadd_def fsub_def Let_def)

lemma doubles_restOrigin: "doubles restOrigin"
  by (simp add: doubles_def isDouble_def restOrigin_def)

text \<open>
  The last frame of a bounce, at progress 1 with the default strength on the target at
  rest: \<open>Math.sin(1 * Math.PI)\<close> is not 0, so the frame lifts the target by at least
  \<open>2 ^ (- 51)\<close>.
\<close>

lemma bounce_lift:
  "2 powr (- 51) \<le> fmul (fmul (Math_sin (fmul 1 Math_PI)) 16) 1"
proof -
  have "2 powr of_int (- 51) \<le> Math_sin Math_PI * 16"
  proof -
    have "(2::real) powr of_int (- 51) = 2 powr (- 55) * 16"
      using powr_neg_nat [of 51] powr_neg_nat [of 55] by simp
    then show ?thesis using Math_sin_Math_PI by simp
  qed
  then have "2 powr of_int (- 51) \<le> fl (Math_sin Math_PI * 16)" by (rule fl_lower) simp
  then have "2 powr of_int (- 51) \<le> fl (fl (Math_sin Math_PI * 16))" by (rule fl_lower) simp
  then show ?thesis by (simp add: fmul_def fl_Math_PI)
qed

lemma bounce_end_posY:
  "posY (applyFrame Bounce 1 1 restOrigin) \<le> - (2 powr (- 51))"
proof -
  let ?lift = "fmul (fmul (Math_sin (fmul 1 Math_PI)) 16) 1"
  have "2 powr of_int (- 51) \<le> ?lift" using bounce_lift by simp
  then have "2 powr of_int (- 51) \<le> fl ?lift" by (rule fl_lower) simp
  moreover have "posY (applyFrame Bounce 1 1 restOrigin) = - fl ?lift"
    by (simp add: applyFrame_def Let_def restOrigin_def fsub_def fl_minus)
  ultimately show ?thesis by simp
qed

text \<open>
  Claim C7 as it is stated fails for the bounce preset at progress 1. For the target at
  rest (scale (1, 1), rotation 0, position (0, 0), all of them doubles) and the default
  strength, \<open>applyFrame\<close> at progress 1 does not produce the original transform: its
  \<open>y\<close> is below 0 by the rounding residue of \<open>Math.sin(Math.PI)\<close>.
\<close>

theorem applyFrame_bounce_end_not_origin:
  "applyFrame Bounce 1 (resolveStrength None) restOrigin \<noteq> restOrigin
   \<and> doubles restOrigin"
proof -
  have "posY (applyFrame Bounce 1 1 restOrigin) < 0"
    using bounce_end_posY powr_gt_zero [of 2 "- 51"] by linarith
  then have "posY (applyFrame Bounce 1 1 restOrigin) \<noteq> posY restOrigin"
    by (simp add: restOrigin_def)
  then have "applyFrame Bounce 1 1 restOrigin \<noteq> restOrigin" by auto
  then show ?thesis by (simp add: resolveStrength_default doubles_restOrigin)
qed

subsection \<open>Cancelling, restoring and completing\<close>

lemma writeTransform_targetAt: "writeTransform (targetAt v) u = targetAt u"
  by (simp add: writeTransform_def targetAt_def writePoint_def)

lemma readOrigin_targetAt: "readOrigin (targetAt v) = v"
  by (simp add: readOrigin_def targetAt_def readPoint_def Let_def)

lemma cancelActiveTween_restores:
  assumes "activeTweens tw = Some r" "r < length (tweens tw)" "target tw = targetAt v"
  shows "target (cancelActiveTween tw) = targetAt (restoreOrigin (tweens tw ! r))"
    and "activeTweens (cancelActiveTween tw) = None"
    and "cancelled (tweens (cancelActiveTween tw) ! r)"
  using assms
  by (simp_all add: cancelActiveTween_def Let_def cancelTick_def writeTransform_targetAt)

lemma applyTweenPreset_restores_first:
  assumes "activeTweens tw = Some r" "r < length (tweens tw)" "target tw = targetAt v"
  shows "target (applyTweenPreset tw preset raw now) = targetAt (restoreOrigin (tweens tw ! r))"
    and "tickOrigin (snd (last (tickQueue (applyTweenPreset tw preset raw now))))
           = restoreOrigin (tweens tw ! r)"
  using cancelActiveTween_restores [OF assms]
  by (simp_all add: applyTweenPreset_def Let_def requestTick_def readOrigin_targetAt)

lemma tick_completes:
  assumes "\<not> cancelled (tweens tw ! tickActive cb)"
    "1 \<le> fdiv (fsub now (startedAt cb)) (duration cb)" "target tw = targetAt v"
  shows "target (tick tw cb now) = targetAt (tickOrigin cb)"
    and "activeTweens (tick tw cb now) = None"
proof -
  have "clamp (fdiv (fsub now (startedAt cb)) (duration cb)) 0 1 = 1"
    using assms(2) by (simp add: clamp_def min_def max_def)
  then show "target (tick tw cb now) = targetAt (tickOrigin cb)"
    and "activeTweens (tick tw cb now) = None"
    using assms(1,3) by (simp_all add: tick_def Let_def writeTransform_targetAt)
qed

lemma fl_340: "fl 340 = 340"
proof (rule fl_grid [where e = 8 and m = "5981343255101440"])
  show "2 powr real_of_int 8 \<le> \<bar>340\<bar>" by simp
  show "\<bar>340\<bar> < 2 powr (real_of_int 8 + 1)" by simp
  show "- 1022 \<le> (8::int)" by simp
  have "(2::real) powr (real_of_int 8 - 52) = 1 / 2 ^ 44"
    using powr_neg_nat [of 44] by simp
  then show "340 = real_of_int 5981343255101440 * 2 powr (real_of_int 8 - 52)"
    by simp
qed

lemma bounceTween_eq:
  "bounceTween =
     \<lparr>target = targetAt restOrigin,
      tweens = [\<lparr>rafId = 1, cancelled = False, restoreOrigin = restOrigin\<rparr>],
      activeTweens = Some 0, tickQueue = [(1, bounceTick)], nextTickId = 2\<rparr>"
  by (simp add: bounceTween_def bounceTick_def restTween_def restOrigin_def applyTweenPreset_def
      Let_def cancelActiveTween_def readOrigin_targetAt requestTick_def getDuration_def
      resolveStrength_default)

lemma bounceTick_done: "1 \<le> fdiv (fsub 340 (startedAt bounceTick)) (duration bounceTick)"
  by (simp add: bounceTick_def fdiv_def fsub_def fl_340)

text \<open>
  Claim C7, amended. For each of the presets bounce, shake and nod, for every strength
  (the raw strength clamped to \<open>[0.05, 3]\<close>, or 1 when it is not a finite number) and
  every original transform (of doubles), the frame at progress 0 is exactly the original
  position, scale and rotation; for shake and nod the frame at progress 1 is so too.
  For every preset, bounce included, the tick whose progress has reached 1 writes the
  captured origin back after the frame (\<open>restore\<close>), so the target ends exactly at its
  original transform.
\<close>

theorem tween_endpoints:
  assumes "doubles orig"
  shows "applyFrame preset 0 (resolveStrength rawStrength) orig = orig
   \<and> applyFrame Shake 1 (resolveStrength rawStrength) orig = orig
   \<and> applyFrame Nod 1 (resolveStrength rawStrength) orig = orig
   \<and> fl (5 / 100) \<le> resolveStrength rawStrength \<and> resolveStrength rawStrength \<le> 3
   \<and> (\<not> cancelled (tweens tw ! tickActive cb)
        \<and> 1 \<le> fdiv (fsub now (startedAt cb)) (duration cb)
        \<and> target tw = targetAt v
        \<longrightarrow> target (tick tw cb now) = targetAt (tickOrigin cb))"
  using assms resolveStrength_range [of rawStrength]
  by (simp add: applyFrame_start applyFrame_shake_end applyFrame_nod_end tick_completes)

theorem tween_endpoints_witness:
  "doubles restOrigin
   \<and> applyFrame Bounce 0 (resolveStrength None) restOrigin = restOrigin
   \<and> applyFrame Shake 1 (resolveStrength None) restOrigin = restOrigin
   \<and> applyFrame Nod 1 (resolveStrength None) restOrigin = restOrigin
   \<and> resolveStrength None = 1
   \<and> \<not> cancelled (tweens bounceTween ! tickActive bounceTick)
   \<and> 1 \<le> fdiv (fsub 340 (startedAt bounceTick)) (duration bounceTick)
   \<and> target bounceTween = targetAt restOrigin
   \<and> target (tick bounceTween bounceTick 340) = targetAt restOrigin"
  using tween_endpoints [of restOrigin Bounce None bounceTween bounceTick 340 restOrigin]
  by (simp add: doubles_restOrigin resolveStrength_default bounceTick_done)
    (simp add: bounceTween_eq bounceTick_def)

lemma fl_170: "fl 170 = 170"
proof (rule fl_grid [where e = 7 and m = "5981343255101440"])
  show "2 powr real_of_int 7 \<le> \<bar>170\<bar>" by simp
  show "\<bar>170\<bar> < 2 powr (real_of_int 7 + 1)" by simp
  show "- 1022 \<le> (7::int)" by simp
  have "(2::real) powr (real_of_int 7 - 52) = 1 / 2 ^ 45"
    using powr_neg_nat [of 45] by simp
  then show "170 = real_of_int 5981343255101440 * 2 powr (real_of_int 7 - 52)"
    by simp
qed

lemma fl_260: "fl 260 = 260"
proof (rule fl_grid [where e = 8 and m = "4573968371548160"])
  show "2 powr real_of_int 8 \<le> \<bar>260\<bar>" by simp
  show "\<bar>260\<bar> < 2 powr (real_of_int 8 + 1)" by simp
  show "- 1022 \<le> (8::int)" by simp
  have "(2::real) powr (real_of_int 8 - 52) = 1 / 2 ^ 44"
    using powr_neg_nat [of 44] by simp
  then show "260 = real_of_int 4573968371548160 * 2 powr (real_of_int 8 - 52)"
    by simp
qed

lemma fl_half: "fl (1 / 2) = 1 / 2"
proof (rule fl_grid [where e = "- 1" and m = "4503599627370496"])
  have h: "(2::real) powr (- 1) = 1 / 2" using powr_neg_nat [of 1] by simp
  show "2 powr real_of_int (- 1) \<le> \<bar>1 / 2\<bar>" using h by simp
  show "\<bar>1 / 2\<bar> < 2 powr (real_of_int (- 1) + 1)" by simp
  show "- 1022 \<le> (- 1::int)" by simp
  have "(2::real) powr (real_of_int (- 1) - 52) = 1 / 2 ^ 53"
    using powr_neg_nat [of 53] by simp
  then show "1 / 2 = real_of_int 4503599627370496 * 2 powr (real_of_int (- 1) - 52)"
    by simp
qed

text \<open>
  A bounce superseded by a shake in mid-flight: \<open>applyTweenPreset\<close> restores the origin
  of the bounce first, and the target is back there when the shake has completed.
\<close>

lemma tween_supersede:
  "target (runTicks (applyTweenPreset (runTicks bounceTween 170) Shake None 170) 430)
     = targetAt restOrigin"
  by (simp add: bounceTween_eq bounceTick_def runTicks_def applyTweenPreset_def Let_def
      requestTick_def cancelActiveTween_def readOrigin_targetAt resolveStrength_default
      clamp_def tick_def getDuration_def writeTransform_targetAt cancelTick_def
      fdiv_def fsub_def fl_170 fl_260 fl_half)

section \<open>Properties of the validator\<close>

lemma isObject_iff: "isObject v = (\<exists>fs. v = JObj fs)"
  by (cases v) (simp_all add: isObject_def typeof_def Array_isArray_def)

lemma isObject_JObj [simp]: "isObject (JObj fs)"
  by (simp add: isObject_iff)

lemma getProp_obj [simp]: "getProp (JObj fs) k = Some (getOwn fs k)"
  by (simp add: getProp_def)

lemma asNonEmptyString_eq: "asNonEmptyString v = Some (nonEmptyString v)"
  by (cases v) (simp_all add: asNonEmptyString_def nonEmptyString_def typeof_def trimOf_def)

lemma those_asNonEmptyString:
  "those (map asNonEmptyString parts) = Some (map nonEmptyString parts)"
  by (induction parts) (simp_all add: asNonEmptyString_eq)

lemma parseMotionAction_some: "\<exists>a b. parseMotionAction (JObj fs) path errs = Some (a, b)"
  by (simp add: parseMotionAction_def asNonEmptyString_eq split: option.split prod.split)

lemma parseTweenAction_some: "\<exists>a b. parseTweenAction (JObj fs) path errs = Some (a, b)"
  by (simp add: parseTweenAction_def split: option.split prod.split)

lemma parseAction_some: "\<exists>a b. parseAction raw path errs allowCombo = Some (a, b)"
proof (cases "isObject raw")
  case False
  then show ?thesis by (simp add: parseAction_def)
next
  case True
  then obtain fs where fs: "raw = JObj fs" by (auto simp add: isObject_iff)
  show ?thesis
    by (simp add: parseAction_def fs asNonEmptyString_eq parseMotionAction_some
        parseTweenAction_some split: option.split prod.split)
qed

lemma parseAction_None: "(parseAction raw path errs allowCombo = None) = False"
  using parseAction_some [of raw path errs allowCombo] by auto

lemma parseKeyMapEntries_some: "\<exists>a b. parseKeyMapEntries es acc errs = Some (a, b)"
proof (induction es arbitrary: acc errs)
  case Nil
  then show ?case by simp
next
  case (Cons e es)
  obtain input actionRaw where e: "e = (input, actionRaw)" by (cases e)
  show ?case
    by (simp add: e Let_def parseAction_None Cons.IH split: option.split prod.split)
qed

lemma parseKeyMapEntries_None: "(parseKeyMapEntries es acc errs = None) = False"
  using parseKeyMapEntries_some [of es acc errs] by auto

lemma parseKeyMap_some: "\<exists>a b. parseKeyMap raw errs = Some (a, b)"
proof (cases "isObject raw")
  case False
  then show ?thesis by (simp add: parseKeyMap_def Let_def)
next
  case True
  then obtain fs where fs: "raw = JObj fs" by (auto simp add: isObject_iff)
  show ?thesis
    by (simp add: parseKeyMap_def Let_def fs Object_entries_def parseKeyMapEntries_None
        split: Option.bind_split prod.split)
qed

lemma parseComboRule_some: "\<exists>a b c. parseComboRule item index st = Some (a, b, c)"
proof (cases "isObject item")
  case False
  then show ?thesis by (cases st) (simp add: parseComboRule_def Let_def)
next
  case True
  then obtain fs where fs: "item = JObj fs" by (auto simp add: isObject_iff)
  obtain acc idSet errs where st: "st = (acc, idSet, errs)" by (cases st)
  show ?thesis
  proof (cases "getOwn fs ''sequence''")
    case (JArr parts)
    show ?thesis
      by (simp add: parseComboRule_def Let_def fs st asNonEmptyString_eq JArr
          orElse_def Array_isArray_def getProp_def elements_def those_asNonEmptyString
          parseAction_None
          split: option.split prod.split Option.bind_split)
  qed (simp_all add: parseComboRule_def Let_def fs st asNonEmptyString_eq
          orElse_def Array_isArray_def split: option.split)
qed

lemma parseComboRule_None: "(parseComboRule item index st = None) = False"
  using parseComboRule_some [of item index st] by auto

lemma parseComboRuleItems_some: "\<exists>a b c. parseComboRuleItems items index st = Some (a, b, c)"
proof (induction items arbitrary: index st)
  case Nil
  then show ?case by (cases st) simp
next
  case (Cons item items)
  show ?case
    by (simp add: parseComboRule_None Cons.IH split: option.split)
qed

lemma parseComboRules_some: "\<exists>a b. parseComboRules raw errs = Some (a, b)"
proof (cases raw)
  case (JArr items)
  obtain a b c where r: "parseComboRuleItems items 0 ([], [], errs) = Some (a, b, c)"
    using parseComboRuleItems_some by blast
  show ?thesis
    by (simp add: parseComboRules_def Let_def JArr Array_isArray_def elements_def r)
qed (simp_all add: parseComboRules_def Let_def Array_isArray_def)

lemma parseIdleAction_some: "\<exists>a b. parseIdleAction item index st = Some (a, b)"
proof (cases "isObject item")
  case False
  then show ?thesis by (cases st) (simp add: parseIdleAction_def Let_def)
next
  case True
  then obtain fs where fs: "item = JObj fs" by (auto simp add: isObject_iff)
  obtain acc errs where st: "st = (acc, errs)" by (cases st)
  show ?thesis
    by (simp add: parseIdleAction_def Let_def fs st parseAction_None
        split: option.split prod.split Option.bind_split)
qed

lemma parseIdleAction_None: "(parseIdleAction item index st = None) = False"
  using parseIdleAction_some [of item index st] by auto

lemma parseIdleActionItems_some: "\<exists>a b. parseIdleActionItems items index st = Some (a, b)"
proof (induction items arbitrary: index st)
  case Nil
  then show ?case by (cases st) simp
next
  case (Cons item items)
  show ?case
    by (simp add: parseIdleAction_None Cons.IH split: option.split)
qed

lemma parseIdleActions_some: "\<exists>a b. parseIdleActions raw errs = Some (a, b)"
proof (cases raw)
  case (JArr items)
  obtain a b where r: "parseIdleActionItems items 0 ([], errs) = Some (a, b)"
    using parseIdleActionItems_some by blast
  show ?thesis
    by (simp add: parseIdleActions_def Let_def JArr Array_isArray_def elements_def r orElse_def
        getProp_def)
qed (simp_all add: parseIdleActions_def Let_def Array_isArray_def orElse_def)

lemma parseIdleActions_None: "(parseIdleActions raw errs = None) = False"
  using parseIdleActions_some [of raw errs] by auto

lemma parseIdleConfig_some: "\<exists>a b. parseIdleConfig raw errs = Some (a, b)"
proof (cases "isObject raw")
  case False
  then show ?thesis by (simp add: parseIdleConfig_def Let_def)
next
  case True
  then obtain fs where fs: "raw = JObj fs" by (auto simp add: isObject_iff)
  show ?thesis
    by (simp add: parseIdleConfig_def Let_def fs parseIdleActions_None
        split: prod.split Option.bind_split)
qed

lemma validateMotionConfig_returns: "\<exists>r. validateMotionConfig raw = Some r"
proof (cases "isObject raw")
  case False
  then show ?thesis by (simp add: validateMotionConfig_def)
next
  case True
  then obtain fs where fs: "raw = JObj fs" by (auto simp add: isObject_iff)
  let ?e0 = "if getOwn fs ''version'' \<noteq> JUndefined \<and> getOwn fs ''version'' \<noteq> JNum (Finite 1)
      then [''version must be 1.''] else []"
  obtain k e1 where k: "parseKeyMap (getOwn fs ''keyMap'') ?e0 = Some (k, e1)"
    using parseKeyMap_some [of "getOwn fs ''keyMap''" ?e0] by auto
  obtain c e2 where c: "parseComboRules (getOwn fs ''comboRules'') e1 = Some (c, e2)"
    using parseComboRules_some [of "getOwn fs ''comboRules''" e1] by auto
  obtain i e3 where i: "parseIdleConfig (getOwn fs ''idle'') e2 = Some (i, e3)"
    using parseIdleConfig_some [of "getOwn fs ''idle''" e2] by auto
  show ?thesis
    using k c i by (simp add: validateMotionConfig_def fs)
qed

lemma validateMotionConfig_shape:
  "validateMotionConfig raw = Some r \<Longrightarrow>
     ok r = (errors r = []) \<and> (value r \<noteq> None) = ok r"
  by (auto simp add: validateMotionConfig_def split: if_splits Option.bind_splits prod.splits)

text \<open>
  Claim C3. For every input value the validator returns a result record: none of the
  property reads and method calls it performs raises, whatever the shape of the input.
  The result is a function of the input alone: equal inputs give equal results.
\<close>

theorem validateMotionConfig_total_deterministic:
  "(\<exists>r. validateMotionConfig raw = Some r)
   \<and> (\<forall>raw'. raw' = raw \<longrightarrow> validateMotionConfig raw' = validateMotionConfig raw)"
  using validateMotionConfig_returns [of raw] by simp

theorem validateMotionConfig_total_deterministic_witness:
  "(\<exists>r. validateMotionConfig (JObj [(''keyMap'', JNull), (''idle'', JArr [])]) = Some r)
   \<and> validateMotionConfig JNull
       = Some \<lparr>ok = False, errors = [''Motion config root must be an object.''], value = None\<rparr>"
  using validateMotionConfig_total_deterministic [of "JObj [(''keyMap'', JNull), (''idle'', JArr [])]"]
    validateMotionConfig_total_deterministic [of JNull]
  by (simp add: validateMotionConfig_def isObject_def typeof_def)

text \<open>
  Claim C10. For every input value the validator returns a result in which \<open>ok\<close> holds
  exactly when the list of errors is empty, and a value is present exactly when \<open>ok\<close>
  holds.
\<close>

theorem validateMotionConfig_ok_iff_no_errors:
  "\<exists>r. validateMotionConfig raw = Some r \<and> ok r = (errors r = []) \<and> (value r \<noteq> None) = ok r"
  using validateMotionConfig_returns [of raw] validateMotionConfig_shape [of raw] by blast

section \<open>Normalisation is idempotent\<close>

lemma dropWhile_rev_suffix:
  assumes "u = [] \<or> \<not> P (hd u)" "v = dropWhile P (rev u)"
  shows "dropWhile P (rev v) = rev v"
proof (cases "v = []")
  case True
  then show ?thesis by simp
next
  case False
  have "rev u = takeWhile P (rev u) @ v" using assms(2) by simp
  then have "rev (rev u) = rev (takeWhile P (rev u) @ v)" by simp
  then have u: "u = rev v @ rev (takeWhile P (rev u))" by simp
  from False have nv: "rev v \<noteq> []" by simp
  have "hd u = hd (rev v)" using nv by (subst u) simp
  moreover have "u \<noteq> []" using u nv by auto
  ultimately have "\<not> P (hd (rev v))" using assms(1) by auto
  then show ?thesis using nv by (cases "rev v") auto
qed

lemma trim_idem: "trim (trim s) = trim s"
proof -
  define u where "u = dropWhile isWhiteSpace s"
  define v where "v = dropWhile isWhiteSpace (rev u)"
  have hu: "u = [] \<or> \<not> isWhiteSpace (hd u)"
    unfolding u_def using hd_dropWhile [of isWhiteSpace s] by blast
  have a: "dropWhile isWhiteSpace (rev v) = rev v"
    using hu v_def by (rule dropWhile_rev_suffix)
  have b: "dropWhile isWhiteSpace v = v" unfolding v_def by simp
  have t: "trim s = rev v" by (simp add: trim_def u_def v_def)
  show ?thesis by (simp add: t) (simp add: trim_def a b)
qed

lemma nonEmptyString_clean: "nonEmptyString v = Some s \<Longrightarrow> cleanString s"
  by (cases v) (auto simp add: nonEmptyString_def cleanString_def trim_idem split: if_splits)

lemma nonEmptyString_JStr: "cleanString s \<Longrightarrow> nonEmptyString (JStr s) = Some s"
  by (simp add: nonEmptyString_def cleanString_def)

lemma asIntegerInRange_Some:
  "asIntegerInRange v lo hi = Some n \<Longrightarrow> intIn lo hi n"
  by (auto simp add: asIntegerInRange_def intIn_def split: json.splits number.splits if_splits)

lemma asIntegerInRange_JNum: "intIn lo hi n \<Longrightarrow> asIntegerInRange (JNum n) lo hi = Some n"
  by (auto simp add: asIntegerInRange_def intIn_def split: number.splits)

lemma asNumberInRange_Some:
  "asNumberInRange v lo hi = Some n \<Longrightarrow> numIn lo hi n"
  by (auto simp add: asNumberInRange_def numIn_def split: json.splits number.splits if_splits)

lemma asNumberInRange_JNum: "numIn lo hi n \<Longrightarrow> asNumberInRange (JNum n) lo hi = Some n"
  by (auto simp add: asNumberInRange_def numIn_def split: number.splits)

lemma optNum_undefined: "(optNum v = JUndefined) = (v = None)"
  by (cases v) (simp_all add: optNum_def)

lemma parseCooldown_clean:
  "parseCooldown v path errs = (c, []) \<Longrightarrow> errs = [] \<and> optIn (intIn 0 60000) c"
  by (auto simp add: parseCooldown_def optIn_def asIntegerInRange_Some
      split: if_splits option.splits)

lemma parseCooldown_data:
  "optIn (intIn 0 60000) c \<Longrightarrow> parseCooldown (optNum c) path errs = (c, errs)"
  by (cases c) (simp_all add: parseCooldown_def optIn_def optNum_def asIntegerInRange_JNum)

lemma parseMotionAction_clean:
  assumes "parseMotionAction (JObj fs) path errs = Some (r, [])"
  shows "errs = [] \<and> (\<exists>a. r = Some a \<and> wfAction allowCombo a)"
proof (cases "nonEmptyString (getOwn fs ''group'')")
  case None
  with assms show ?thesis by (simp add: parseMotionAction_def asNonEmptyString_eq)
next
  case (Some g)
  show ?thesis
    using assms Some nonEmptyString_clean [OF Some]
    by (auto simp add: parseMotionAction_def asNonEmptyString_eq optIn_def
        split: if_splits option.splits prod.splits
        dest!: parseCooldown_clean asIntegerInRange_Some)
qed

lemma parseTweenAction_clean:
  assumes "parseTweenAction (JObj fs) path errs = Some (r, [])"
  shows "errs = [] \<and> (\<exists>a. r = Some a \<and> wfAction allowCombo a)"
  using assms
  by (auto simp add: parseTweenAction_def optIn_def
      split: if_splits option.splits prod.splits
      dest!: parseCooldown_clean asNumberInRange_Some)

lemma parseAction_clean:
  assumes "parseAction raw path errs allowCombo = Some (r, [])"
  shows "errs = [] \<and> (\<exists>a. r = Some a \<and> wfAction allowCombo a)"
proof (cases "isObject raw")
  case False
  with assms show ?thesis by (simp add: parseAction_def)
next
  case True
  then obtain fs where fs: "raw = JObj fs" by (auto simp add: isObject_iff)
  show ?thesis
  proof (cases "nonEmptyString (getOwn fs ''kind'')")
    case None
    with assms show ?thesis by (simp add: parseAction_def fs asNonEmptyString_eq)
  next
    case (Some k)
    consider "k = ''motion''" | "k = ''expression''" | "k = ''tween''" | "k = ''combo''"
      | "k \<noteq> ''motion'' \<and> k \<noteq> ''expression'' \<and> k \<noteq> ''tween'' \<and> k \<noteq> ''combo''"
      by blast
    then show ?thesis
    proof cases
      case 1
      with assms Some show ?thesis
        by (simp add: parseAction_def fs asNonEmptyString_eq parseMotionAction_clean)
    next
      case 2
      with assms Some show ?thesis
        by (auto simp add: parseAction_def fs asNonEmptyString_eq optIn_def
            split: option.splits prod.splits
            dest!: parseCooldown_clean nonEmptyString_clean)
    next
      case 3
      with assms Some show ?thesis
        by (simp add: parseAction_def fs asNonEmptyString_eq parseTweenAction_clean)
    next
      case 4
      with assms Some show ?thesis
        by (auto simp add: parseAction_def fs asNonEmptyString_eq optIn_def
            split: option.splits prod.splits if_splits
            dest!: parseCooldown_clean nonEmptyString_clean)
    next
      case 5
      with assms Some show ?thesis
        by (simp add: parseAction_def fs asNonEmptyString_eq)
    qed
  qed
qed

lemma presetOfString_name: "presetOfString (presetName p) = Some p"
  by (cases p) (simp_all add: presetOfString_def presetName_def)

lemma optNum_cases:
  "optIn (intIn lo hi) v \<Longrightarrow>
     (if optNum v \<noteq> JUndefined then
        (case asIntegerInRange (optNum v) lo hi of None \<Rightarrow> (None, errs @ [m]) | Some n \<Rightarrow> (Some n, errs))
      else (None, errs)) = (v, errs)"
  by (cases v) (simp_all add: optNum_def optIn_def asIntegerInRange_JNum)

lemma optNum_cases_num:
  "optIn (numIn lo hi) v \<Longrightarrow>
     (if optNum v \<noteq> JUndefined then
        (case asNumberInRange (optNum v) lo hi of None \<Rightarrow> (None, errs @ [m]) | Some n \<Rightarrow> (Some n, errs))
      else (None, errs)) = (v, errs)"
  by (cases v) (simp_all add: optNum_def optIn_def asNumberInRange_JNum)

lemma parseAction_data:
  assumes "wfAction allowCombo a"
  shows "parseAction (actionData a) path errs allowCombo = Some (Some a, errs)"
proof (cases a)
  case (MotionAction g i p c)
  with assms show ?thesis
    by (simp add: parseAction_def asNonEmptyString_eq nonEmptyString_def trim_def isWhiteSpace_def
        parseMotionAction_def getOwn_def optNum_cases parseCooldown_data cleanString_def)
next
  case (ExpressionAction n c)
  with assms show ?thesis
    by (simp add: parseAction_def asNonEmptyString_eq nonEmptyString_def trim_def isWhiteSpace_def
        getOwn_def parseCooldown_data cleanString_def)
next
  case (TweenAction p s c)
  with assms show ?thesis
    by (simp add: parseAction_def asNonEmptyString_eq nonEmptyString_def trim_def isWhiteSpace_def
        parseTweenAction_def getOwn_def optNum_cases_num parseCooldown_data presetOfString_name)
next
  case (ComboAction r c)
  with assms show ?thesis
    by (simp add: parseAction_def asNonEmptyString_eq nonEmptyString_def trim_def isWhiteSpace_def
        getOwn_def parseCooldown_data cleanString_def)
qed

lemma parseAction_errs: "parseAction raw path errs allowCombo = Some (r, []) \<Longrightarrow> errs = []"
  using parseAction_clean by blast

lemma assign_known: "k \<in> set (map fst acc) \<Longrightarrow> map fst (assign acc k v) = map fst acc"
  by (induction acc) force+

lemma assign_all: "list_all P acc \<Longrightarrow> P (k, v) \<Longrightarrow> list_all P (assign acc k v)"
  by (induction acc) auto

lemma assign_fresh: "k \<notin> set (map fst acc) \<Longrightarrow> assign acc k v = acc @ [(k, v)]"
  by (induction acc) auto

lemma assignKey_wf:
  assumes "wfKeyMap acc" "cleanString k" "wfAction True a"
  shows "wfKeyMap (assignKey acc k a)"
proof (cases "k = ''__proto__''")
  case True
  with assms(1) show ?thesis by (simp add: assignKey_def)
next
  case False
  have "wfBinding (k, a)" using assms(2,3) False by (simp add: wfBinding_def)
  then show ?thesis
    using assms(1) False
    by (cases "k \<in> set (map fst acc)")
      (simp_all add: assignKey_def wfKeyMap_def assign_known assign_fresh assign_all)
qed

lemma parseKeyMapEntries_errs:
  "parseKeyMapEntries es acc errs = Some (m, []) \<Longrightarrow> errs = []"
proof (induction es arbitrary: acc errs)
  case Nil
  then show ?case by simp
next
  case (Cons e es)
  obtain input actionRaw where e: "e = (input, actionRaw)" by (cases e)
  show ?case
  proof (cases "trim input = []")
    case True
    with Cons.prems have "parseKeyMapEntries es acc
        (errs @ [''keyMap contains an empty input key.'']) = Some (m, [])"
      by (simp add: e Let_def)
    from Cons.IH [OF this] show ?thesis by simp
  next
    case False
    obtain r errs1 where p: "parseAction actionRaw (''keyMap.'' @ trim input) errs True = Some (r, errs1)"
      using parseAction_some by blast
    have "\<exists>acc'. parseKeyMapEntries es acc' errs1 = Some (m, [])"
      using Cons.prems False p by (cases r) (auto simp add: e Let_def)
    then have "errs1 = []" using Cons.IH by blast
    with p show ?thesis using parseAction_errs by blast
  qed
qed

lemma parseKeyMapEntries_wf:
  "parseKeyMapEntries es acc errs = Some (m, []) \<Longrightarrow> wfKeyMap acc \<Longrightarrow> wfKeyMap m"
proof (induction es arbitrary: acc errs)
  case Nil
  then show ?case by simp
next
  case (Cons e es)
  obtain input actionRaw where e: "e = (input, actionRaw)" by (cases e)
  show ?case
  proof (cases "trim input = []")
    case True
    with Cons.prems(1) have "parseKeyMapEntries es acc
        (errs @ [''keyMap contains an empty input key.'']) = Some (m, [])"
      by (simp add: e Let_def)
    from parseKeyMapEntries_errs [OF this] show ?thesis by simp
  next
    case False
    obtain r errs1 where p: "parseAction actionRaw (''keyMap.'' @ trim input) errs True = Some (r, errs1)"
      using parseAction_some by blast
    show ?thesis
    proof (cases r)
      case None
      with Cons.prems(1) False p have q: "parseKeyMapEntries es acc errs1 = Some (m, [])"
        by (simp add: e Let_def)
      from parseKeyMapEntries_errs [OF q] p None parseAction_clean [of actionRaw _ errs True None]
      show ?thesis by auto
    next
      case (Some a)
      with Cons.prems(1) False p
      have q: "parseKeyMapEntries es (assignKey acc (trim input) a) errs1 = Some (m, [])"
        by (simp add: e Let_def)
      have "errs1 = []" using parseKeyMapEntries_errs [OF q] .
      with p Some have "wfAction True a"
        using parseAction_clean [of actionRaw _ errs True "Some a"] by auto
      moreover have "cleanString (trim input)"
        using False by (simp add: cleanString_def trim_idem)
      ultimately have "wfKeyMap (assignKey acc (trim input) a)"
        using Cons.prems(2) by (simp add: assignKey_wf)
      from Cons.IH [OF q this] show ?thesis .
    qed
  qed
qed

lemma parseKeyMapEntries_data:
  assumes "wfKeyMap kvs" "set (map fst kvs) \<inter> set (map fst acc) = {}"
  shows "parseKeyMapEntries (map (\<lambda>(input, action). (input, actionData action)) kvs) acc errs
           = Some (acc @ kvs, errs)"
  using assms
proof (induction kvs arbitrary: acc)
  case Nil
  then show ?case by simp
next
  case (Cons kv kvs)
  obtain k a where kv: "kv = (k, a)" by (cases kv)
  from Cons.prems(1) have wf: "wfBinding (k, a)" and rest: "wfKeyMap kvs"
    and fresh: "k \<notin> set (map fst kvs)"
    by (simp_all add: wfKeyMap_def kv)
  from wf have k: "trim k = k" "k \<noteq> []" "k \<noteq> ''__proto__''" and a: "wfAction True a"
    by (simp_all add: wfBinding_def cleanString_def)
  from Cons.prems(2) have kacc: "k \<notin> set (map fst acc)" by (auto simp add: kv)
  have step: "assignKey acc k a = acc @ [(k, a)]"
    using k(3) kacc by (simp add: assignKey_def assign_fresh)
  have disj: "set (map fst kvs) \<inter> set (map fst (acc @ [(k, a)])) = {}"
    using Cons.prems(2) fresh by (auto simp add: kv)
  have "parseKeyMapEntries (map (\<lambda>(input, action). (input, actionData action)) kvs)
      (acc @ [(k, a)]) errs = Some ((acc @ [(k, a)]) @ kvs, errs)"
    using rest disj by (rule Cons.IH)
  then show ?case
    using k a by (simp add: kv Let_def parseAction_data step)
qed

lemma defaultMotionConfig_wf: "wfConfig defaultMotionConfig"
  by (simp add: wfConfig_def defaultMotionConfig_def wfKeyMap_def wfBinding_def wfRules_def
      wfRule_def wfIdle_def wfEntry_def cleanString_def trim_def isWhiteSpace_def optIn_def
      intIn_def numIn_def Number_isInteger_def)

lemma cloneAction_id: "cloneAction a = a"
  by (cases a) simp_all

lemma ComboRule_eta:
  "\<lparr>comboId = comboId rule, sequence = sequence rule, withinMs = withinMs rule,
    ruleAction = ruleAction rule, ruleCooldownMs = ruleCooldownMs rule\<rparr> = rule"
  by (cases rule) simp

lemma IdleEntry_eta: "\<lparr>entryAction = entryAction entry, entryWeight = entryWeight entry\<rparr> = entry"
  by (cases entry) simp

lemma cloneMotionConfig_id: "cloneMotionConfig config = config"
proof -
  have "map (\<lambda>(input, action). (input, cloneAction action)) (keyMap config) = keyMap config"
    by (induction "keyMap config") (auto simp add: cloneAction_id)
  then show ?thesis
    by (cases config, cases "idle config")
      (simp add: cloneMotionConfig_def cloneAction_id ComboRule_eta IdleEntry_eta)
qed

lemma parseKeyMap_clean:
  assumes "parseKeyMap raw errs = Some (m, [])"
  shows "errs = [] \<and> m \<noteq> [] \<and> wfKeyMap m"
proof (cases "isObject raw")
  case False
  with assms show ?thesis by (simp add: parseKeyMap_def Let_def)
next
  case True
  then obtain fs where fs: "raw = JObj fs" by (auto simp add: isObject_iff)
  obtain m1 e1 where l: "parseKeyMapEntries fs [] errs = Some (m1, e1)"
    using parseKeyMapEntries_some by blast
  from assms have "m1 \<noteq> [] \<and> m = m1 \<and> e1 = []"
    by (auto simp add: parseKeyMap_def Let_def fs Object_entries_def l split: if_splits)
  then show ?thesis
    using parseKeyMapEntries_errs [of fs "[]" errs m1] parseKeyMapEntries_wf [of fs "[]" errs m1] l
    by (simp add: wfKeyMap_def)
qed

lemma parseKeyMap_data:
  assumes "wfKeyMap m" "m \<noteq> []"
  shows "parseKeyMap (JObj (map (\<lambda>(input, action). (input, actionData action)) m)) errs
           = Some (m, errs)"
  using parseKeyMapEntries_data [of m "[]" errs] assms
  by (simp add: parseKeyMap_def Let_def Object_entries_def)

lemma map_filter_length: "length (List.map_filter f xs) \<le> length xs"
  by (simp add: List.map_filter_def)

lemma kept_clean:
  assumes "length (List.map_filter (\<lambda>part. part) (map nonEmptyString parts)) = length parts"
  shows "list_all cleanString (List.map_filter (\<lambda>part. part) (map nonEmptyString parts))"
  using assms
proof (induction parts)
  case Nil
  then show ?case by (simp add: map_filter_simps)
next
  case (Cons p parts)
  have le: "length (List.map_filter (\<lambda>part. part) (map nonEmptyString parts)) \<le> length parts"
    using map_filter_length [of "\<lambda>part. part" "map nonEmptyString parts"] by simp
  show ?case
  proof (cases "nonEmptyString p")
    case None
    with Cons.prems le show ?thesis by (simp add: map_filter_simps)
  next
    case (Some x)
    with Cons.prems Cons.IH nonEmptyString_clean [OF Some] show ?thesis
      by (simp add: map_filter_simps)
  qed
qed

lemma kept_data:
  "list_all cleanString seq \<Longrightarrow>
   List.map_filter (\<lambda>part. part) (map (nonEmptyString \<circ> JStr) seq) = seq"
  by (induction seq) (simp_all add: List.map_filter_def nonEmptyString_JStr)

lemma those_asNonEmptyString_comp:
  "those (map (asNonEmptyString \<circ> f) parts) = Some (map (nonEmptyString \<circ> f) parts)"
  by (induction parts) (simp_all add: asNonEmptyString_eq)

lemma parseComboRule_clean:
  assumes "parseComboRule item index (acc, idSet, errs) = Some (acc', idSet', [])"
  shows "errs = [] \<and>
         (\<exists>rule. acc' = acc @ [rule] \<and> idSet' = idSet @ [comboId rule] \<and> wfRule rule \<and>
                  comboId rule \<notin> set idSet)"
proof (cases "isObject item")
  case False
  with assms show ?thesis by (simp add: parseComboRule_def Let_def)
next
  case True
  then obtain fs where fs: "item = JObj fs" by (auto simp add: isObject_iff)
  note unf = parseComboRule_def Let_def fs asNonEmptyString_eq orElse_def Array_isArray_def
    getProp_def elements_def those_asNonEmptyString
  show ?thesis
  proof (cases "nonEmptyString (getOwn fs ''id'')")
    case None
    with assms show ?thesis by (simp add: unf)
  next
    case (Some i)
    note i = Some
    show ?thesis
    proof (cases "i \<in> set idSet")
      case True
      with assms i show ?thesis by (simp add: unf)
    next
      case False
      note fresh = False
      show ?thesis
      proof (cases "getOwn fs ''sequence''")
        case (JArr parts)
        let ?path = "''comboRules['' @ showNat index @ '']''"
        let ?kept = "List.map_filter (\<lambda>part. part) (map nonEmptyString parts)"
        have len: "\<not> (lessThan (JNum (Finite (real (length parts)))) 2 \<or>
            length ?kept \<noteq> length parts)"
        proof (cases "lessThan (JNum (Finite (real (length parts)))) 2")
          case True
          with assms i fresh JArr show ?thesis by (simp add: unf)
        next
          case False
          with assms i fresh JArr show ?thesis
            by (cases "length ?kept = length parts") (simp_all add: unf)
        qed
        show ?thesis
        proof -
          show ?thesis
          proof (cases "asIntegerInRange (getOwn fs ''withinMs'') 1 10000")
            case None
            with assms i fresh JArr len show ?thesis by (simp add: unf)
          next
            case (Some limit)
            obtain r errs1 where p: "parseAction (getOwn fs ''action'') (?path @ ''.action'')
                errs False = Some (r, errs1)"
              using parseAction_some by blast
            obtain c errs2 where c: "parseCooldown (getOwn fs ''cooldownMs'') ?path errs1
                = (c, errs2)"
              by (meson surj_pair)
            show ?thesis
            proof (cases r)
              case None
              with assms i fresh JArr len Some p show ?thesis
                by (simp add: unf del: append.simps)
            next
              case a: (Some a)
              show ?thesis
              proof (cases "isComboAction a")
                case True
                with assms i fresh JArr len Some p a show ?thesis
                  by (simp add: unf del: append.simps)
              next
                case False
                with assms i fresh JArr len Some p a c
                have res: "acc' = acc @ [\<lparr>comboId = i, sequence = ?kept, withinMs = limit,
                    ruleAction = a, ruleCooldownMs = c\<rparr>]" "idSet' = idSet @ [i]" "errs2 = []"
                  by (simp_all add: unf del: append.simps)
                from c res(3) have e1: "errs1 = []" and cw: "optIn (intIn 0 60000) c"
                  using parseCooldown_clean by blast+
                from p e1 a have e: "errs = []" and aw: "wfAction False a"
                  using parseAction_clean [of "getOwn fs ''action''" _ errs False r] by auto
                have "wfRule \<lparr>comboId = i, sequence = ?kept, withinMs = limit, ruleAction = a,
                               ruleCooldownMs = c\<rparr>"
                  using i len Some aw cw
                  by (simp add: wfRule_def nonEmptyString_clean kept_clean asIntegerInRange_Some
                      lessThan_def)
                with e res fresh show ?thesis by simp
              qed
            qed
          qed
        qed
      qed (use assms i fresh in \<open>simp_all add: unf\<close>)
    qed
  qed
qed

lemma parseComboRule_data:
  assumes "wfRule rule" "comboId rule \<notin> set idSet"
  shows "parseComboRule (ruleData rule) index (acc, idSet, errs)
           = Some (acc @ [rule], idSet @ [comboId rule], errs)"
proof -
  have nc: "\<not> isComboAction (ruleAction rule)"
    using assms(1) by (cases "ruleAction rule") (simp_all add: wfRule_def isComboAction_def)
  show ?thesis
    using assms nc
    by (simp add: parseComboRule_def Let_def ruleData_def asNonEmptyString_eq getOwn_def
        nonEmptyString_JStr wfRule_def orElse_def Array_isArray_def getProp_def elements_def
        those_asNonEmptyString_comp kept_data lessThan_def asIntegerInRange_JNum parseAction_data
        parseCooldown_data ComboRule_eta)
qed

lemma parseComboRuleItems_errs:
  "parseComboRuleItems items index (acc, idSet, errs) = Some (acc', idSet', []) \<Longrightarrow> errs = []"
proof (induction items arbitrary: index acc idSet errs)
  case Nil
  then show ?case by simp
next
  case (Cons item items)
  obtain a1 i1 e1 where s: "parseComboRule item index (acc, idSet, errs) = Some (a1, i1, e1)"
    using parseComboRule_some by blast
  with Cons.prems have "parseComboRuleItems items (Suc index) (a1, i1, e1) = Some (acc', idSet', [])"
    by simp
  from Cons.IH [OF this] have "e1 = []" .
  with s show ?case using parseComboRule_clean by blast
qed

lemma parseComboRuleItems_wf:
  "parseComboRuleItems items index (acc, idSet, errs) = Some (acc', idSet', []) \<Longrightarrow>
   wfRules acc \<Longrightarrow> idSet = map comboId acc \<Longrightarrow> wfRules acc'"
proof (induction items arbitrary: index acc idSet errs)
  case Nil
  then show ?case by simp
next
  case (Cons item items)
  obtain a1 i1 e1 where s: "parseComboRule item index (acc, idSet, errs) = Some (a1, i1, e1)"
    using parseComboRule_some by blast
  with Cons.prems(1)
  have r: "parseComboRuleItems items (Suc index) (a1, i1, e1) = Some (acc', idSet', [])"
    by simp
  from parseComboRuleItems_errs [OF r] have "e1 = []" .
  with s obtain rule where rule: "a1 = acc @ [rule]" "i1 = idSet @ [comboId rule]" "wfRule rule"
    "comboId rule \<notin> set idSet"
    using parseComboRule_clean by blast
  have "wfRules a1" "i1 = map comboId a1"
    using rule Cons.prems(2,3) by (simp_all add: wfRules_def)
  with r show ?case by (rule Cons.IH)
qed

lemma parseComboRuleItems_data:
  assumes "wfRules rules" "set (map comboId rules) \<inter> set idSet = {}"
  shows "parseComboRuleItems (map ruleData rules) index (acc, idSet, errs)
           = Some (acc @ rules, idSet @ map comboId rules, errs)"
  using assms
proof (induction rules arbitrary: index acc idSet)
  case Nil
  then show ?case by simp
next
  case (Cons rule rules)
  from Cons.prems have wf: "wfRule rule" "wfRules rules" "comboId rule \<notin> set idSet"
    and disj: "set (map comboId rules) \<inter> set (idSet @ [comboId rule]) = {}"
    by (auto simp add: wfRules_def)
  have "parseComboRuleItems (map ruleData rules) (Suc index)
      (acc @ [rule], idSet @ [comboId rule], errs)
      = Some ((acc @ [rule]) @ rules, (idSet @ [comboId rule]) @ map comboId rules, errs)"
    using wf(2) disj by (rule Cons.IH)
  then show ?case
    using wf by (simp add: parseComboRule_data)
qed

lemma parseComboRules_clean:
  assumes "parseComboRules raw errs = Some (rules, [])"
  shows "errs = [] \<and> wfRules rules"
proof (cases raw)
  case (JArr items)
  obtain a b c where r: "parseComboRuleItems items 0 ([], [], errs) = Some (a, b, c)"
    using parseComboRuleItems_some by blast
  with assms JArr have "a = rules" "c = []"
    by (simp_all add: parseComboRules_def Let_def Array_isArray_def elements_def)
  with r show ?thesis
    using parseComboRuleItems_errs [of items 0 "[]" "[]" errs rules b]
      parseComboRuleItems_wf [of items 0 "[]" "[]" errs rules b]
    by (simp add: wfRules_def)
next
  case JUndefined
  with assms defaultMotionConfig_wf show ?thesis
    by (simp add: parseComboRules_def Let_def cloneMotionConfig_id wfConfig_def)
qed (use assms in \<open>simp_all add: parseComboRules_def Let_def Array_isArray_def\<close>)

lemma parseComboRules_data:
  assumes "wfRules rules"
  shows "parseComboRules (JArr (map ruleData rules)) errs = Some (rules, errs)"
  using parseComboRuleItems_data [of rules "[]" 0 "[]" errs] assms
  by (simp add: parseComboRules_def Let_def Array_isArray_def elements_def)

lemma parseIdleAction_clean:
  assumes "parseIdleAction item index (acc, errs) = Some (acc', [])"
  shows "errs = [] \<and> (\<exists>entry. acc' = acc @ [entry] \<and> wfEntry entry)"
proof (cases "isObject item")
  case False
  with assms show ?thesis by (simp add: parseIdleAction_def Let_def)
next
  case True
  then obtain fs where fs: "item = JObj fs" by (auto simp add: isObject_iff)
  let ?path = "''idle.actions['' @ showNat index @ '']''"
  note unf = parseIdleAction_def Let_def fs
  obtain r errs1 where p: "parseAction (getOwn fs ''action'') (?path @ ''.action'') errs False
      = Some (r, errs1)"
    using parseAction_some by blast
  show ?thesis
  proof (cases r)
    case None
    with assms p show ?thesis by (simp add: unf del: append.simps)
  next
    case a: (Some a)
    show ?thesis
    proof (cases "isComboAction a")
      case True
      with assms p a show ?thesis by (simp add: unf del: append.simps)
    next
      case False
      note nc = False
      show ?thesis
      proof (cases "getOwn fs ''weight'' = JUndefined")
        case True
        with assms p a nc have "acc' = acc @ [\<lparr>entryAction = a, entryWeight = None\<rparr>]" "errs1 = []"
          by (simp_all add: unf del: append.simps)
        moreover from this(2) p a have "errs = []" "wfAction False a"
          using parseAction_clean [of "getOwn fs ''action''" _ errs False r] by auto
        ultimately show ?thesis by (simp add: wfEntry_def optIn_def)
      next
        case False
        note w = False
        show ?thesis
        proof (cases "asNumberInRange (getOwn fs ''weight'') (1 / 100) 100")
          case None
          with assms p a nc w show ?thesis by (simp add: unf del: append.simps)
        next
          case (Some v)
          with assms p a nc w
          have "acc' = acc @ [\<lparr>entryAction = a, entryWeight = Some v\<rparr>]" "errs1 = []"
            by (simp_all add: unf del: append.simps)
          moreover from this(2) p a have "errs = []" "wfAction False a"
            using parseAction_clean [of "getOwn fs ''action''" _ errs False r] by auto
          ultimately show ?thesis
            using asNumberInRange_Some [OF Some] by (simp add: wfEntry_def optIn_def)
        qed
      qed
    qed
  qed
qed

lemma parseIdleAction_data:
  assumes "wfEntry entry"
  shows "parseIdleAction (entryData entry) index (acc, errs) = Some (acc @ [entry], errs)"
proof -
  have nc: "\<not> isComboAction (entryAction entry)"
    using assms by (cases "entryAction entry") (simp_all add: wfEntry_def isComboAction_def)
  show ?thesis
    using assms nc
    by (simp add: parseIdleAction_def Let_def entryData_def getOwn_def wfEntry_def
        parseAction_data optNum_cases_num IdleEntry_eta)
qed

lemma parseIdleActionItems_errs:
  "parseIdleActionItems items index (acc, errs) = Some (acc', []) \<Longrightarrow> errs = []"
proof (induction items arbitrary: index acc errs)
  case Nil
  then show ?case by simp
next
  case (Cons item items)
  obtain a1 e1 where s: "parseIdleAction item index (acc, errs) = Some (a1, e1)"
    using parseIdleAction_some by blast
  with Cons.prems have "parseIdleActionItems items (Suc index) (a1, e1) = Some (acc', [])"
    by simp
  from Cons.IH [OF this] have "e1 = []" .
  with s show ?case using parseIdleAction_clean by blast
qed

lemma parseIdleActionItems_wf:
  "parseIdleActionItems items index (acc, errs) = Some (acc', []) \<Longrightarrow>
   list_all wfEntry acc \<Longrightarrow> list_all wfEntry acc'"
proof (induction items arbitrary: index acc errs)
  case Nil
  then show ?case by simp
next
  case (Cons item items)
  obtain a1 e1 where s: "parseIdleAction item index (acc, errs) = Some (a1, e1)"
    using parseIdleAction_some by blast
  with Cons.prems(1)
  have r: "parseIdleActionItems items (Suc index) (a1, e1) = Some (acc', [])"
    by simp
  from parseIdleActionItems_errs [OF r] have "e1 = []" .
  with s obtain entry where "a1 = acc @ [entry]" "wfEntry entry"
    using parseIdleAction_clean by blast
  then have "list_all wfEntry a1" using Cons.prems(2) by simp
  with r show ?case by (rule Cons.IH)
qed

lemma parseIdleActionItems_data:
  assumes "list_all wfEntry entries"
  shows "parseIdleActionItems (map entryData entries) index (acc, errs)
           = Some (acc @ entries, errs)"
  using assms
proof (induction entries arbitrary: index acc)
  case Nil
  then show ?case by simp
next
  case (Cons entry entries)
  then have "parseIdleActionItems (map entryData entries) (Suc index) (acc @ [entry], errs)
      = Some ((acc @ [entry]) @ entries, errs)"
    by simp
  then show ?case
    using Cons.prems by (simp add: parseIdleAction_data)
qed

lemma parseIdleActions_clean:
  assumes "parseIdleActions raw errs = Some (entries, [])"
  shows "errs = [] \<and> entries \<noteq> [] \<and> list_all wfEntry entries"
proof (cases raw)
  case (JArr items)
  obtain a b where r: "parseIdleActionItems items 0 ([], errs) = Some (a, b)"
    using parseIdleActionItems_some by blast
  from assms JArr r have f: "entries \<noteq> []" "a = entries" "b = []"
    by (auto simp add: parseIdleActions_def Let_def Array_isArray_def elements_def orElse_def
        getProp_def split: if_splits)
  from r f show ?thesis
    using parseIdleActionItems_errs [of items 0 "[]" errs entries]
      parseIdleActionItems_wf [of items 0 "[]" errs entries]
    by simp
qed (use assms in \<open>simp_all add: parseIdleActions_def Let_def Array_isArray_def orElse_def\<close>)

lemma parseIdleActions_data:
  assumes "list_all wfEntry entries" "entries \<noteq> []"
  shows "parseIdleActions (JArr (map entryData entries)) errs = Some (entries, errs)"
  using parseIdleActionItems_data [of entries 0 "[]" errs] assms
  by (simp add: parseIdleActions_def Let_def Array_isArray_def elements_def orElse_def
      getProp_def)

lemma parseIdleConfig_clean:
  assumes "parseIdleConfig raw errs = Some (i, [])"
  shows "errs = [] \<and> wfIdle i"
proof (cases "isObject raw")
  case False
  with assms show ?thesis by (simp add: parseIdleConfig_def Let_def)
next
  case True
  then obtain fs where fs: "raw = JObj fs" by (auto simp add: isObject_iff)
  let ?e1 = "snd (if getOwn fs ''enabled'' \<noteq> JUndefined then
             (case getOwn fs ''enabled'' of
                JBool b \<Rightarrow> (b, errs)
              | _ \<Rightarrow> (True, errs @ [''idle.enabled must be a boolean.'']))
           else (True, errs))"
  let ?a = "case asIntegerInRange (getOwn fs ''afterMs'') 500 600000 of
             None \<Rightarrow> (None, ?e1 @ [''idle.afterMs must be an integer between 500 and 600000.''])
           | Some v \<Rightarrow> (Some v, ?e1)"
  let ?i = "if getOwn fs ''intervalMs'' \<noteq> JUndefined then
             (case asIntegerInRange (getOwn fs ''intervalMs'') 100 600000 of
                None \<Rightarrow> (None, snd ?a @ [''idle.intervalMs must be an integer between 100 and 600000.''])
              | Some v \<Rightarrow> (Some v, snd ?a))
           else (None, snd ?a)"
  obtain entries e4 where p: "parseIdleActions (getOwn fs ''actions'') (snd ?i) = Some (entries, e4)"
    using parseIdleActions_some by blast
  have unf: "parseIdleConfig raw errs =
      Some (\<lparr>enabled = fst (if getOwn fs ''enabled'' \<noteq> JUndefined then
             (case getOwn fs ''enabled'' of
                JBool b \<Rightarrow> (b, errs)
              | _ \<Rightarrow> (True, errs @ [''idle.enabled must be a boolean.'']))
           else (True, errs)),
               afterMs = (case fst ?a of Some v \<Rightarrow> v | None \<Rightarrow> afterMs (idle defaultMotionConfig)),
               intervalMs = fst ?i, actions = entries\<rparr>, e4)"
    using p
    by (simp add: parseIdleConfig_def Let_def fs cloneMotionConfig_id split_beta
        del: append.simps)
  from assms unf have e4: "e4 = []" by simp
  from parseIdleActions_clean [OF p [unfolded e4]]
  have ei: "snd ?i = []" and ent: "entries \<noteq> []" "list_all wfEntry entries" by blast+
  from ei have ea: "snd ?a = []" and wi: "optIn (intIn 100 600000) (fst ?i)"
    by (auto simp add: optIn_def split: if_splits option.splits dest: asIntegerInRange_Some)
  from ea obtain v where v: "asIntegerInRange (getOwn fs ''afterMs'') 500 600000 = Some v"
    and e1: "?e1 = []"
    by (cases "asIntegerInRange (getOwn fs ''afterMs'') 500 600000") auto
  from e1 have "errs = []"
    by (auto split: if_splits json.splits)
  moreover have "wfIdle i"
    using assms unf ent wi v asIntegerInRange_Some [OF v]
    by (auto simp add: wfIdle_def)
  ultimately show ?thesis by simp
qed

lemma parseIdleConfig_data:
  assumes "wfIdle i"
  shows "parseIdleConfig
           (JObj [(''enabled'', JBool (enabled i)), (''afterMs'', JNum (afterMs i)),
                  (''intervalMs'', optNum (intervalMs i)),
                  (''actions'', JArr (map entryData (actions i)))]) errs
         = Some (i, errs)"
  using assms
  by (cases i)
    (simp add: parseIdleConfig_def Let_def getOwn_def wfIdle_def asIntegerInRange_JNum
      optNum_cases parseIdleActions_data)

lemma validateMotionConfig_clean:
  assumes "validateMotionConfig raw = Some r" "ok r"
  shows "\<exists>c. value r = Some c \<and> wfConfig c \<and> r = \<lparr>ok = True, errors = [], value = Some c\<rparr>"
proof (cases "isObject raw")
  case False
  with assms show ?thesis by (auto simp add: validateMotionConfig_def)
next
  case True
  then obtain fs where fs: "raw = JObj fs" by (auto simp add: isObject_iff)
  let ?e0 = "if getOwn fs ''version'' \<noteq> JUndefined \<and> getOwn fs ''version'' \<noteq> JNum (Finite 1)
      then [''version must be 1.''] else []"
  obtain k e1 where k: "parseKeyMap (getOwn fs ''keyMap'') ?e0 = Some (k, e1)"
    using parseKeyMap_some [of "getOwn fs ''keyMap''" ?e0] by auto
  obtain c e2 where c: "parseComboRules (getOwn fs ''comboRules'') e1 = Some (c, e2)"
    using parseComboRules_some [of "getOwn fs ''comboRules''" e1] by auto
  obtain i e3 where i: "parseIdleConfig (getOwn fs ''idle'') e2 = Some (i, e3)"
    using parseIdleConfig_some [of "getOwn fs ''idle''" e2] by auto
  have unf: "validateMotionConfig raw =
      (if length e3 > 0 then Some \<lparr>ok = False, errors = e3, value = None\<rparr>
       else Some \<lparr>ok = True, errors = e3,
                  value = Some \<lparr>keyMap = k, comboRules = c, idle = i\<rparr>\<rparr>)"
    using k c i by (simp add: validateMotionConfig_def fs)
  from assms unf have e3: "e3 = []"
    and r: "r = \<lparr>ok = True, errors = [], value = Some \<lparr>keyMap = k, comboRules = c, idle = i\<rparr>\<rparr>"
    by (auto split: if_splits)
  from parseIdleConfig_clean [OF i [unfolded e3]] have e2: "e2 = []" and wi: "wfIdle i" by blast+
  from parseComboRules_clean [OF c [unfolded e2]] have e1: "e1 = []" and wc: "wfRules c" by blast+
  from parseKeyMap_clean [OF k [unfolded e1]] have wk: "k \<noteq> []" "wfKeyMap k" by blast+
  show ?thesis
    using r wi wc wk by (simp add: wfConfig_def)
qed

lemma validateMotionConfig_data:
  assumes "wfConfig c"
  shows "validateMotionConfig (configData c) = Some \<lparr>ok = True, errors = [], value = Some c\<rparr>"
  using assms
  by (cases c)
    (simp add: validateMotionConfig_def configData_def getOwn_def wfConfig_def
      parseKeyMap_data parseComboRules_data parseIdleConfig_data)

lemma resolveMotionConfig_wf: "\<exists>c. resolveMotionConfig raw = Some c \<and> wfConfig c"
proof -
  obtain r where r: "validateMotionConfig raw = Some r"
    using validateMotionConfig_returns by blast
  show ?thesis
  proof (cases "ok r")
    case True
    from validateMotionConfig_clean [OF r True] r show ?thesis
      by (auto simp add: resolveMotionConfig_def)
  next
    case False
    with r show ?thesis
      by (cases "value r")
        (simp_all add: resolveMotionConfig_def cloneMotionConfig_id defaultMotionConfig_wf)
  qed
qed

lemma resolveMotionConfig_data: "wfConfig c \<Longrightarrow> resolveMotionConfig (configData c) = Some c"
  by (simp add: resolveMotionConfig_def validateMotionConfig_data)

text \<open>
  Claim C4. Normalisation is idempotent. For every input \<open>resolveMotionConfig\<close> returns
  a configuration, and resolving that configuration, handed back as data, returns it
  again; and when the input validates with \<open>ok\<close>, the value produced validates with
  \<open>ok\<close>, no errors and itself as value. (Objects are compared by their entries in
  insertion order.)
\<close>

theorem resolveMotionConfig_idempotent:
  "\<exists>c. resolveMotionConfig raw = Some c
       \<and> resolveMotionConfig (configData c) = Some c
       \<and> (\<forall>r. validateMotionConfig raw = Some r \<and> ok r \<longrightarrow>
             value r = Some c
             \<and> validateMotionConfig (configData c)
                 = Some \<lparr>ok = True, errors = [], value = Some c\<rparr>)"
proof -
  obtain c where c: "resolveMotionConfig raw = Some c" "wfConfig c"
    using resolveMotionConfig_wf by blast
  have "\<forall>r. validateMotionConfig raw = Some r \<and> ok r \<longrightarrow> value r = Some c"
    using c(1) validateMotionConfig_clean [of raw]
    by (auto simp add: resolveMotionConfig_def)
  with c show ?thesis
    by (auto simp add: resolveMotionConfig_data validateMotionConfig_data)
qed

theorem resolveMotionConfig_idempotent_witness:
  "validateMotionConfig (configData defaultMotionConfig)
     = Some \<lparr>ok = True, errors = [], value = Some defaultMotionConfig\<rparr>
   \<and> resolveMotionConfig (configData defaultMotionConfig) = Some defaultMotionConfig
   \<and> resolveMotionConfig JNull = Some defaultMotionConfig
   \<and> resolveMotionConfig (configData defaultMotionConfig)
       = resolveMotionConfig JNull"
  using resolveMotionConfig_idempotent [of "configData defaultMotionConfig"]
    resolveMotionConfig_idempotent [of JNull]
    validateMotionConfig_data [OF defaultMotionConfig_wf]
  by (auto simp add: resolveMotionConfig_def validateMotionConfig_def isObject_def typeof_def
      cloneMotionConfig_id)

section \<open>Properties of cloneMotionConfig on the store\<close>

lemma keeps_refl [simp]: "keeps h h"
  by (simp add: keeps_def)

lemma keeps_trans:
  assumes "keeps h1 h2" "keeps h2 h3"
  shows "keeps h1 h3"
proof -
  from assms have l: "length h1 \<le> length h2" "length h2 \<le> length h3"
    and t: "take (length h1) h2 = h1" "take (length h2) h3 = h2"
    by (simp_all add: keeps_def)
  have "take (length h1) (take (length h2) h3) = take (length h1) h3"
    using l(1) by (simp add: min_def)
  then have "take (length h1) h3 = h1"
    by (simp only: t)
  with l show ?thesis by (simp add: keeps_def)
qed

lemma keeps_append [simp]: "keeps h (h @ xs)"
  by (simp add: keeps_def)

lemma keeps_update: "keeps h0 h \<Longrightarrow> length h0 \<le> k \<Longrightarrow> keeps h0 (h[k := ob])"
  by (simp add: keeps_def)

lemma keeps_length: "keeps h h' \<Longrightarrow> length h \<le> length h'"
  by (simp add: keeps_def)

lemma keeps_nth: "keeps h h' \<Longrightarrow> a < length h \<Longrightarrow> h' ! a = h ! a"
  by (metis keeps_def nth_take)

lemma lookup_keeps: "keeps h h' \<Longrightarrow> lookup h a = Some ob \<Longrightarrow> lookup h' a = Some ob"
  using keeps_nth [of h h' a] keeps_length [of h h']
  by (auto simp add: lookup_def split: if_splits)

lemma lookup_bound: "lookup h a = Some ob \<Longrightarrow> a < length h"
  by (simp add: lookup_def split: if_splits)

lemma readAction_iff: "(readAction h a = Some x) = (lookup h a = Some (HAction x))"
  by (auto simp add: readAction_def split: option.splits hobj.splits)

lemma readAction_keeps: "keeps h h' \<Longrightarrow> readAction h a = Some x \<Longrightarrow> readAction h' a = Some x"
  by (simp add: readAction_iff lookup_keeps)

lemma readBindings_keeps:
  "keeps h h' \<Longrightarrow> readBindings h es = Some bs \<Longrightarrow> readBindings h' es = Some bs"
proof (induction es arbitrary: bs)
  case Nil
  then show ?case by simp
next
  case (Cons e es)
  obtain k r where e: "e = (k, r)" by (cases e)
  from Cons.prems(2) obtain x rest where x: "readAction h r = Some x"
    and rest: "readBindings h es = Some rest" and bs: "bs = (k, x) # rest"
    by (auto simp add: e split: option.splits)
  from Cons.IH [OF Cons.prems(1) rest] readAction_keeps [OF Cons.prems(1) x]
  show ?case by (simp add: e bs)
qed

lemma readKeyMap_keeps:
  assumes "keeps h h'" "readKeyMap h k = Some m"
  shows "readKeyMap h' k = Some m"
proof -
  from assms(2) obtain own proto where l: "lookup h k = Some (HKeyMap own proto)"
    and b: "readBindings h own = Some m"
    by (auto simp add: readKeyMap_def split: option.splits hobj.splits)
  from lookup_keeps [OF assms(1) l] readBindings_keeps [OF assms(1) b]
  show ?thesis by (simp add: readKeyMap_def)
qed

lemma readRule_keeps:
  assumes "keeps h h'" "readRule h r = Some x"
  shows "readRule h' r = Some x"
proof -
  from assms(2) obtain i s w a c xs y where l: "lookup h r = Some (HRule i s w a c)"
    and q: "lookup h s = Some (HSequence xs)" and b: "readAction h a = Some y"
    and x: "x = \<lparr>comboId = i, sequence = xs, withinMs = w, ruleAction = y, ruleCooldownMs = c\<rparr>"
    by (auto simp add: readRule_def split: option.splits hobj.splits)
  from lookup_keeps [OF assms(1) l] lookup_keeps [OF assms(1) q] readAction_keeps [OF assms(1) b]
  show ?thesis by (simp add: readRule_def x)
qed

lemma readRuleList_keeps:
  "keeps h h' \<Longrightarrow> readRuleList h rs = Some xs \<Longrightarrow> readRuleList h' rs = Some xs"
proof (induction rs arbitrary: xs)
  case Nil
  then show ?case by simp
next
  case (Cons r rs)
  from Cons.prems(2) obtain x rest where x: "readRule h r = Some x"
    and rest: "readRuleList h rs = Some rest" and xs: "xs = x # rest"
    by (auto split: option.splits)
  from Cons.IH [OF Cons.prems(1) rest] readRule_keeps [OF Cons.prems(1) x]
  show ?case by (simp add: xs)
qed

lemma readRules_keeps:
  assumes "keeps h h'" "readRules h r = Some x"
  shows "readRules h' r = Some x"
proof -
  from assms(2) obtain rs where l: "lookup h r = Some (HRules rs)"
    and b: "readRuleList h rs = Some x"
    by (auto simp add: readRules_def split: option.splits hobj.splits)
  from lookup_keeps [OF assms(1) l] readRuleList_keeps [OF assms(1) b]
  show ?thesis by (simp add: readRules_def)
qed

lemma readEntry_keeps:
  assumes "keeps h h'" "readEntry h e = Some x"
  shows "readEntry h' e = Some x"
proof -
  from assms(2) obtain a w y where l: "lookup h e = Some (HEntry a w)"
    and b: "readAction h a = Some y" and x: "x = \<lparr>entryAction = y, entryWeight = w\<rparr>"
    by (auto simp add: readEntry_def split: option.splits hobj.splits)
  from lookup_keeps [OF assms(1) l] readAction_keeps [OF assms(1) b]
  show ?thesis by (simp add: readEntry_def x)
qed

lemma readEntryList_keeps:
  "keeps h h' \<Longrightarrow> readEntryList h es = Some xs \<Longrightarrow> readEntryList h' es = Some xs"
proof (induction es arbitrary: xs)
  case Nil
  then show ?case by simp
next
  case (Cons e es)
  from Cons.prems(2) obtain x rest where x: "readEntry h e = Some x"
    and rest: "readEntryList h es = Some rest" and xs: "xs = x # rest"
    by (auto split: option.splits)
  from Cons.IH [OF Cons.prems(1) rest] readEntry_keeps [OF Cons.prems(1) x]
  show ?case by (simp add: xs)
qed

lemma readIdle_keeps:
  assumes "keeps h h'" "readIdle h i = Some x"
  shows "readIdle h' i = Some x"
proof -
  from assms(2) obtain en af iv acts es xs where l: "lookup h i = Some (HIdle en af iv acts)"
    and q: "lookup h acts = Some (HEntries es)" and b: "readEntryList h es = Some xs"
    and x: "x = \<lparr>enabled = en, afterMs = af, intervalMs = iv, actions = xs\<rparr>"
    by (auto simp add: readIdle_def split: option.splits hobj.splits)
  from lookup_keeps [OF assms(1) l] lookup_keeps [OF assms(1) q] readEntryList_keeps [OF assms(1) b]
  show ?thesis by (simp add: readIdle_def x)
qed

lemma readConfig_parts:
  assumes "readConfig h a = Some c"
  obtains k rs i where "lookup h a = Some (HConfig k rs i)"
    and "readKeyMap h k = Some (keyMap c)" and "readRules h rs = Some (comboRules c)"
    and "readIdle h i = Some (idle c)"
  using assms
  by (auto simp add: readConfig_def split: option.splits hobj.splits)

lemma readConfig_keeps:
  assumes "keeps h h'" "readConfig h a = Some c"
  shows "readConfig h' a = Some c"
proof -
  from assms(2) obtain k rs i where l: "lookup h a = Some (HConfig k rs i)"
    and km: "readKeyMap h k = Some (keyMap c)" and r: "readRules h rs = Some (comboRules c)"
    and idl: "readIdle h i = Some (idle c)"
    by (rule readConfig_parts)
  from lookup_keeps [OF assms(1) l] readKeyMap_keeps [OF assms(1) km]
    readRules_keeps [OF assms(1) r] readIdle_keeps [OF assms(1) idl]
  show ?thesis by (cases c) (simp add: readConfig_def)
qed

lemma lookup_alloc_new: "lookup (h @ [ob]) (length h) = Some ob"
  by (simp add: lookup_def)

lemma cloneActionAt_eq:
  "cloneActionAt h a = map_option (\<lambda>x. (h @ [HAction x], length h)) (readAction h a)"
  by (simp add: cloneActionAt_def readAction_def alloc_def cloneAction_id
      split: option.split hobj.split)

lemma cloneActionAt_Some:
  assumes "cloneActionAt h a = Some (h', a')"
  obtains x where "readAction h a = Some x" "h' = h @ [HAction x]" "a' = length h"
  using assms by (auto simp add: cloneActionAt_eq)

lemma readAction_new: "readAction (h @ [HAction x]) (length h) = Some x"
  by (simp add: readAction_iff lookup_alloc_new)

lemma ruleFootprint_keeps:
  "keeps h h' \<Longrightarrow> r < length h \<Longrightarrow> ruleFootprint h' r = ruleFootprint h r"
  using keeps_nth [of h h' r] keeps_length [of h h']
  by (simp add: ruleFootprint_def lookup_def)

lemma entryFootprint_keeps:
  "keeps h h' \<Longrightarrow> e < length h \<Longrightarrow> entryFootprint h' e = entryFootprint h e"
  using keeps_nth [of h h' e] keeps_length [of h h']
  by (simp add: entryFootprint_def lookup_def)

lemma cloneRuleAt_Some:
  assumes "cloneRuleAt h r = Some (h', r')"
  obtains i s w a c xs y where
    "lookup h r = Some (HRule i s w a c)" "lookup h s = Some (HSequence xs)"
    "readAction h a = Some y"
    "h' = h @ [HSequence xs, HAction y, HRule i (length h) w (Suc (length h)) c]"
    "r' = Suc (Suc (length h))"
proof -
  from assms obtain i s w a c where l: "lookup h r = Some (HRule i s w a c)"
    by (auto simp add: cloneRuleAt_def split: option.splits hobj.splits)
  from assms l obtain xs where q: "lookup h s = Some (HSequence xs)"
    by (auto simp add: cloneRuleAt_def split: option.splits hobj.splits)
  from assms l q obtain y where y: "readAction (h @ [HSequence xs]) a = Some y"
    and h': "h' = h @ [HSequence xs, HAction y, HRule i (length h) w (Suc (length h)) c]"
    and r': "r' = Suc (Suc (length h))"
    by (cases "readAction (h @ [HSequence xs]) a")
      (auto simp add: cloneRuleAt_def alloc_def cloneActionAt_eq)
  have "a < length h"
    using lookup_bound [OF l] y
    by (auto simp add: readAction_iff lookup_def nth_append split: if_splits)
  with y have "readAction h a = Some y"
    by (simp add: readAction_iff lookup_def nth_append)
  then show ?thesis using l q h' r' that by blast
qed

lemma cloneRuleAt_fresh:
  assumes "cloneRuleAt h r = Some (h', r')"
  shows "keeps h h' \<and> r' < length h' \<and>
         (\<forall>b \<in> set (ruleFootprint h' r'). length h \<le> b \<and> b < length h')"
proof -
  from assms obtain i s w a c xs y where
    h': "h' = h @ [HSequence xs, HAction y, HRule i (length h) w (Suc (length h)) c]"
    and r': "r' = Suc (Suc (length h))"
    by (rule cloneRuleAt_Some)
  show ?thesis
    by (simp add: h' r' ruleFootprint_def lookup_def nth_append)
qed

lemma cloneRuleAt_read:
  assumes "readRule h r = Some x"
  shows "\<exists>h' r'. cloneRuleAt h r = Some (h', r') \<and> readRule h' r' = Some x"
proof -
  from assms obtain i s w a c xs y where l: "lookup h r = Some (HRule i s w a c)"
    and q: "lookup h s = Some (HSequence xs)" and b: "readAction h a = Some y"
    and x: "x = \<lparr>comboId = i, sequence = xs, withinMs = w, ruleAction = y, ruleCooldownMs = c\<rparr>"
    by (auto simp add: readRule_def split: option.splits hobj.splits)
  have "readAction (h @ [HSequence xs]) a = Some y"
    using b by (rule readAction_keeps [rotated]) simp
  then have "cloneRuleAt h r
      = Some (h @ [HSequence xs, HAction y, HRule i (length h) w (Suc (length h)) c],
              Suc (Suc (length h)))"
    using l q by (simp add: cloneRuleAt_def alloc_def cloneActionAt_eq)
  moreover have "readRule (h @ [HSequence xs, HAction y, HRule i (length h) w (Suc (length h)) c])
      (Suc (Suc (length h))) = Some x"
    by (simp add: readRule_def lookup_def nth_append readAction_def x)
  ultimately show ?thesis by simp
qed

lemma cloneRuleList_fresh:
  "cloneRuleList h rs = Some (h', rs') \<Longrightarrow>
   keeps h h' \<and>
   (\<forall>r' \<in> set rs'. \<forall>b \<in> set (ruleFootprint h' r'). length h \<le> b \<and> b < length h')"
proof (induction rs arbitrary: h h' rs')
  case Nil
  then show ?case by simp
next
  case (Cons r rs)
  from Cons.prems obtain h1 r1 h2 rs2 where c1: "cloneRuleAt h r = Some (h1, r1)"
    and c2: "cloneRuleList h1 rs = Some (h2, rs2)" and e: "h' = h2" "rs' = r1 # rs2"
    by (auto split: option.splits)
  from cloneRuleAt_fresh [OF c1] have k1: "keeps h h1" and r1: "r1 < length h1"
    and f1: "\<forall>b \<in> set (ruleFootprint h1 r1). length h \<le> b \<and> b < length h1"
    by simp_all
  from Cons.IH [OF c2] have k2: "keeps h1 h2"
    and f2: "\<forall>r' \<in> set rs2. \<forall>b \<in> set (ruleFootprint h2 r'). length h1 \<le> b \<and> b < length h2"
    by simp_all
  have fp: "ruleFootprint h2 r1 = ruleFootprint h1 r1"
    using k2 r1 by (rule ruleFootprint_keeps)
  have g1: "\<forall>b \<in> set (ruleFootprint h2 r1). length h \<le> b \<and> b < length h2"
    using f1 fp keeps_length [OF k2] by fastforce
  have g2: "\<forall>r' \<in> set rs2. \<forall>b \<in> set (ruleFootprint h2 r'). length h \<le> b \<and> b < length h2"
    using f2 keeps_length [OF k1] by fastforce
  from g1 g2 keeps_trans [OF k1 k2] show ?case by (simp add: e)
qed

lemma cloneRuleList_read:
  "readRuleList h rs = Some xs \<Longrightarrow>
   \<exists>h' rs'. cloneRuleList h rs = Some (h', rs') \<and> readRuleList h' rs' = Some xs"
proof (induction rs arbitrary: h xs)
  case Nil
  then show ?case by simp
next
  case (Cons r rs)
  from Cons.prems obtain x rest where x: "readRule h r = Some x"
    and rest: "readRuleList h rs = Some rest" and xs: "xs = x # rest"
    by (auto split: option.splits)
  from cloneRuleAt_read [OF x] obtain h1 r1 where c1: "cloneRuleAt h r = Some (h1, r1)"
    and x1: "readRule h1 r1 = Some x"
    by blast
  from cloneRuleAt_fresh [OF c1] have k1: "keeps h h1" by simp
  from Cons.IH [OF readRuleList_keeps [OF k1 rest]] obtain h2 rs2 where
    c2: "cloneRuleList h1 rs = Some (h2, rs2)" and x2: "readRuleList h2 rs2 = Some rest"
    by blast
  from cloneRuleList_fresh [OF c2] have k2: "keeps h1 h2" by simp
  from readRule_keeps [OF k2 x1] c1 c2 x2 show ?case by (simp add: xs)
qed

lemma cloneEntryAt_Some:
  assumes "cloneEntryAt h e = Some (h', e')"
  obtains a w y where "lookup h e = Some (HEntry a w)" "readAction h a = Some y"
    "h' = h @ [HAction y, HEntry (length h) w]" "e' = Suc (length h)"
  using assms
  by (auto simp add: cloneEntryAt_def alloc_def cloneActionAt_eq split: option.splits hobj.splits)

lemma cloneEntryAt_fresh:
  assumes "cloneEntryAt h e = Some (h', e')"
  shows "keeps h h' \<and> e' < length h' \<and>
         (\<forall>b \<in> set (entryFootprint h' e'). length h \<le> b \<and> b < length h')"
proof -
  from assms obtain a w y where h': "h' = h @ [HAction y, HEntry (length h) w]"
    and e': "e' = Suc (length h)"
    by (rule cloneEntryAt_Some)
  show ?thesis
    by (simp add: h' e' entryFootprint_def lookup_def nth_append)
qed

lemma cloneEntryAt_read:
  assumes "readEntry h e = Some x"
  shows "\<exists>h' e'. cloneEntryAt h e = Some (h', e') \<and> readEntry h' e' = Some x"
proof -
  from assms obtain a w y where l: "lookup h e = Some (HEntry a w)"
    and b: "readAction h a = Some y" and x: "x = \<lparr>entryAction = y, entryWeight = w\<rparr>"
    by (auto simp add: readEntry_def split: option.splits hobj.splits)
  have "cloneEntryAt h e = Some (h @ [HAction y, HEntry (length h) w], Suc (length h))"
    using l b by (simp add: cloneEntryAt_def alloc_def cloneActionAt_eq)
  moreover have "readEntry (h @ [HAction y, HEntry (length h) w]) (Suc (length h)) = Some x"
    by (simp add: readEntry_def lookup_def nth_append readAction_def x)
  ultimately show ?thesis by simp
qed

lemma cloneEntryList_fresh:
  "cloneEntryList h es = Some (h', es') \<Longrightarrow>
   keeps h h' \<and>
   (\<forall>e' \<in> set es'. \<forall>b \<in> set (entryFootprint h' e'). length h \<le> b \<and> b < length h')"
proof (induction es arbitrary: h h' es')
  case Nil
  then show ?case by simp
next
  case (Cons e es)
  from Cons.prems obtain h1 e1 h2 es2 where c1: "cloneEntryAt h e = Some (h1, e1)"
    and c2: "cloneEntryList h1 es = Some (h2, es2)" and eq: "h' = h2" "es' = e1 # es2"
    by (auto split: option.splits)
  from cloneEntryAt_fresh [OF c1] have k1: "keeps h h1" and e1: "e1 < length h1"
    and f1: "\<forall>b \<in> set (entryFootprint h1 e1). length h \<le> b \<and> b < length h1"
    by simp_all
  from Cons.IH [OF c2] have k2: "keeps h1 h2"
    and f2: "\<forall>e' \<in> set es2. \<forall>b \<in> set (entryFootprint h2 e'). length h1 \<le> b \<and> b < length h2"
    by simp_all
  have fp: "entryFootprint h2 e1 = entryFootprint h1 e1"
    using k2 e1 by (rule entryFootprint_keeps)
  have g1: "\<forall>b \<in> set (entryFootprint h2 e1). length h \<le> b \<and> b < length h2"
    using f1 fp keeps_length [OF k2] by fastforce
  have g2: "\<forall>e' \<in> set es2. \<forall>b \<in> set (entryFootprint h2 e'). length h \<le> b \<and> b < length h2"
    using f2 keeps_length [OF k1] by fastforce
  from g1 g2 keeps_trans [OF k1 k2] show ?case by (simp add: eq)
qed

lemma cloneEntryList_read:
  "readEntryList h es = Some xs \<Longrightarrow>
   \<exists>h' es'. cloneEntryList h es = Some (h', es') \<and> readEntryList h' es' = Some xs"
proof (induction es arbitrary: h xs)
  case Nil
  then show ?case by simp
next
  case (Cons e es)
  from Cons.prems obtain x rest where x: "readEntry h e = Some x"
    and rest: "readEntryList h es = Some rest" and xs: "xs = x # rest"
    by (auto split: option.splits)
  from cloneEntryAt_read [OF x] obtain h1 e1 where c1: "cloneEntryAt h e = Some (h1, e1)"
    and x1: "readEntry h1 e1 = Some x"
    by blast
  from cloneEntryAt_fresh [OF c1] have k1: "keeps h h1" by simp
  from Cons.IH [OF readEntryList_keeps [OF k1 rest]] obtain h2 es2 where
    c2: "cloneEntryList h1 es = Some (h2, es2)" and x2: "readEntryList h2 es2 = Some rest"
    by blast
  from cloneEntryList_fresh [OF c2] have k2: "keeps h1 h2" by simp
  from readEntry_keeps [OF k2 x1] c1 c2 x2 show ?case by (simp add: xs)
qed

lemma length_setKey [simp]: "length (setKey h k input c) = length h"
  by (simp add: setKey_def split: option.split hobj.split)

lemma setKey_keeps: "keeps h0 h \<Longrightarrow> length h0 \<le> k \<Longrightarrow> keeps h0 (setKey h k input c)"
  by (simp add: setKey_def keeps_update split: option.split hobj.split)

lemma cloneKeyMapEntries_keeps:
  "cloneKeyMapEntries h k es = Some h' \<Longrightarrow> keeps h0 h \<Longrightarrow> length h0 \<le> k \<Longrightarrow> keeps h0 h'"
proof (induction es arbitrary: h)
  case Nil
  then show ?case by simp
next
  case (Cons e es)
  obtain input action where e: "e = (input, action)" by (cases e)
  from Cons.prems(1) obtain h1 cloned where c: "cloneActionAt h action = Some (h1, cloned)"
    and r: "cloneKeyMapEntries (setKey h1 k input cloned) k es = Some h'"
    by (auto simp add: e split: option.splits)
  from c obtain x where h1: "h1 = h @ [HAction x]" by (rule cloneActionAt_Some)
  have "keeps h0 h1" using Cons.prems(2) keeps_append [of h "[HAction x]"]
    by (simp only: h1) (rule keeps_trans)
  then have "keeps h0 (setKey h1 k input cloned)"
    using Cons.prems(3) by (rule setKey_keeps)
  with r show ?case using Cons.prems(3) by (rule Cons.IH)
qed

lemma assign_values: "set (map snd (assign own k v)) \<subseteq> insert v (set (map snd own))"
proof (induction own)
  case Nil
  then show ?case by simp
next
  case (Cons p own)
  obtain a b where p: "p = (a, b)" by (cases p)
  show ?case
    using Cons.IH by (cases "a = k") (auto simp add: p)
qed

lemma keyMapFootprint_keeps:
  "keeps h h' \<Longrightarrow> k < length h \<Longrightarrow> keyMapFootprint h' k = keyMapFootprint h k"
  using keeps_nth [of h h' k] keeps_length [of h h']
  by (simp add: keyMapFootprint_def lookup_def)

lemma setKey_footprint:
  assumes "lookup h k = Some (HKeyMap own proto)"
    "\<forall>b \<in> set (keyMapFootprint h k). n0 \<le> b \<and> b < length h" "n0 \<le> length h"
  shows "(\<exists>own' proto'. lookup (setKey (h @ [ob]) k input (length h)) k = Some (HKeyMap own' proto'))
       \<and> (\<forall>b \<in> set (keyMapFootprint (setKey (h @ [ob]) k input (length h)) k).
             n0 \<le> b \<and> b < Suc (length h))"
proof -
  from assms(1) have k: "k < length h" by (rule lookup_bound)
  then have l1: "lookup (h @ [ob]) k = Some (HKeyMap own proto)"
    using assms(1) by (simp add: lookup_def nth_append)
  from assms(1,2) have old: "n0 \<le> k" "\<forall>b \<in> set (map snd own). n0 \<le> b \<and> b < length h"
    "\<forall>p. proto = Some p \<longrightarrow> n0 \<le> p \<and> p < length h"
    by (auto simp add: keyMapFootprint_def)
  show ?thesis
  proof (cases "input = ''__proto__''")
    case True
    then show ?thesis
      using k l1 old assms(3)
      by (auto simp add: setKey_def lookup_def keyMapFootprint_def less_Suc_eq)
  next
    case False
    have "\<forall>b \<in> set (map snd (assign own input (length h))). n0 \<le> b \<and> b < Suc (length h)"
      using assign_values [of own input "length h"] old(2) assms(3) by fastforce
    then show ?thesis
      using False k l1 old(1,3)
      by (auto simp add: setKey_def lookup_def keyMapFootprint_def less_Suc_eq
          split: option.splits)
  qed
qed

lemma cloneKeyMapEntries_fresh:
  "cloneKeyMapEntries h k es = Some h' \<Longrightarrow>
   \<exists>own proto. lookup h k = Some (HKeyMap own proto) \<Longrightarrow>
   \<forall>b \<in> set (keyMapFootprint h k). n0 \<le> b \<and> b < length h \<Longrightarrow> n0 \<le> length h \<Longrightarrow>
   (\<exists>own' proto'. lookup h' k = Some (HKeyMap own' proto')) \<and>
   (\<forall>b \<in> set (keyMapFootprint h' k). n0 \<le> b \<and> b < length h')"
proof (induction es arbitrary: h)
  case Nil
  then show ?case by simp
next
  case (Cons e es)
  obtain input action where e: "e = (input, action)" by (cases e)
  from Cons.prems(1) obtain h1 cloned where c: "cloneActionAt h action = Some (h1, cloned)"
    and r: "cloneKeyMapEntries (setKey h1 k input cloned) k es = Some h'"
    by (auto simp add: e split: option.splits)
  from c obtain x where h1: "h1 = h @ [HAction x]" and cl: "cloned = length h"
    by (rule cloneActionAt_Some)
  from Cons.prems(2) obtain own proto where l: "lookup h k = Some (HKeyMap own proto)" by blast
  from setKey_footprint [OF l Cons.prems(3,4), of "HAction x" input]
  have a: "\<exists>own' proto'. lookup (setKey h1 k input cloned) k = Some (HKeyMap own' proto')"
    and b: "\<forall>b \<in> set (keyMapFootprint (setKey h1 k input cloned) k).
        n0 \<le> b \<and> b < length (setKey h1 k input cloned)"
    by (simp_all add: h1 cl)
  have "n0 \<le> length (setKey h1 k input cloned)"
    using Cons.prems(4) by (simp add: h1)
  with r a b show ?case by (rule Cons.IH)
qed

lemma readBindings_append:
  "readBindings h (xs @ ys) =
     (case readBindings h xs of
        None \<Rightarrow> None
      | Some a \<Rightarrow> map_option (\<lambda>b. a @ b) (readBindings h ys))"
proof (induction xs)
  case Nil
  show ?case by (cases "readBindings h ys") simp_all
next
  case (Cons x xs)
  obtain k r where x: "x = (k, r)" by (cases x)
  show ?case
    by (cases "readBindings h ys") (simp_all add: x Cons.IH split: option.split)
qed

lemma readBindings_keys: "readBindings h es = Some bs \<Longrightarrow> map fst bs = map fst es"
proof (induction es arbitrary: bs)
  case Nil
  then show ?case by simp
next
  case (Cons e es)
  obtain k r where e: "e = (k, r)" by (cases e)
  from Cons.prems obtain x rest where "readBindings h es = Some rest" "bs = (k, x) # rest"
    by (auto simp add: e split: option.splits)
  with Cons.IH show ?case by (simp add: e)
qed

lemma readBindings_actions:
  "readBindings h es = Some bs \<Longrightarrow>
   (\<And>r x. readAction h r = Some x \<Longrightarrow> readAction h2 r = Some x) \<Longrightarrow>
   readBindings h2 es = Some bs"
proof (induction es arbitrary: bs)
  case Nil
  then show ?case by simp
next
  case (Cons e es)
  obtain k r where e: "e = (k, r)" by (cases e)
  from Cons.prems(1) obtain x rest where x: "readAction h r = Some x"
    and rest: "readBindings h es = Some rest" and bs: "bs = (k, x) # rest"
    by (auto simp add: e split: option.splits)
  from Cons.IH [OF rest Cons.prems(2)] Cons.prems(2) [OF x]
  show ?case by (simp add: e bs)
qed

lemma setKey_action:
  assumes "lookup h k = Some (HKeyMap own proto)" "readAction h r = Some y"
  shows "readAction (setKey (h @ [ob]) k input c) r = Some y"
proof -
  from assms(1) have k: "k < length h" by (rule lookup_bound)
  from assms(2) have r: "r < length h" "h ! r = HAction y"
    by (auto simp add: readAction_iff lookup_def split: if_splits)
  from assms(1) k have "h ! k = HKeyMap own proto" by (simp add: lookup_def)
  with r have "r \<noteq> k" by auto
  with k r show ?thesis
    by (simp add: setKey_def readAction_iff lookup_def nth_append split: option.split hobj.split)
qed

lemma cloneKeyMapEntries_read:
  "lookup h k = Some (HKeyMap own proto) \<Longrightarrow> readBindings h own = Some acc \<Longrightarrow>
   readBindings h es = Some bs \<Longrightarrow> distinct (map fst es) \<Longrightarrow>
   ''__proto__'' \<notin> set (map fst es) \<Longrightarrow> set (map fst own) \<inter> set (map fst es) = {} \<Longrightarrow>
   \<exists>h' own'. cloneKeyMapEntries h k es = Some h' \<and> lookup h' k = Some (HKeyMap own' proto)
     \<and> readBindings h' own' = Some (acc @ bs)"
proof (induction es arbitrary: h own acc bs)
  case Nil
  then show ?case by simp
next
  case (Cons e es)
  obtain input action where e: "e = (input, action)" by (cases e)
  from Cons.prems(3) obtain x rest where x: "readAction h action = Some x"
    and rest: "readBindings h es = Some rest" and bs: "bs = (input, x) # rest"
    by (auto simp add: e split: option.splits)
  let ?h2 = "setKey (h @ [HAction x]) k input (length h)"
  from Cons.prems(1) have k: "k < length h" by (rule lookup_bound)
  from Cons.prems(5,6) have input: "input \<noteq> ''__proto__''" "input \<notin> set (map fst own)"
    by (auto simp add: e)
  have l1: "lookup (h @ [HAction x]) k = Some (HKeyMap own proto)"
    using Cons.prems(1) k by (simp add: lookup_def nth_append)
  have h2: "?h2 = (h @ [HAction x])[k := HKeyMap (own @ [(input, length h)]) proto]"
    using l1 input by (simp add: setKey_def assign_fresh)
  have l2: "lookup ?h2 k = Some (HKeyMap (own @ [(input, length h)]) proto)"
    using k by (simp add: h2 lookup_def)
  have pres: "\<And>r y. readAction h r = Some y \<Longrightarrow> readAction ?h2 r = Some y"
    using Cons.prems(1) by (rule setKey_action)
  have new: "readAction ?h2 (length h) = Some x"
    using k by (simp add: h2 readAction_iff lookup_def)
  have own2: "readBindings ?h2 (own @ [(input, length h)]) = Some (acc @ [(input, x)])"
    using readBindings_actions [OF Cons.prems(2) pres] new
    by (simp add: readBindings_append)
  have es2: "readBindings ?h2 es = Some rest"
    using rest pres by (rule readBindings_actions)
  have d: "distinct (map fst es)" "''__proto__'' \<notin> set (map fst es)"
    "set (map fst (own @ [(input, length h)])) \<inter> set (map fst es) = {}"
    using Cons.prems(4,5,6) by (auto simp add: e)
  from Cons.IH [OF l2 own2 es2 d] obtain h' own' where
    "cloneKeyMapEntries ?h2 k es = Some h'" "lookup h' k = Some (HKeyMap own' proto)"
    "readBindings h' own' = Some ((acc @ [(input, x)]) @ rest)"
    by blast
  then show ?case
    using x by (simp add: e bs cloneActionAt_eq)
qed

lemma cloneMotionConfigAt_Some:
  assumes "cloneMotionConfigAt h a = Some (h', a')"
  obtains k rs i own proto rules en af iv acts entries h2 h3 rules' h5 entries' where
    "lookup h a = Some (HConfig k rs i)" "lookup h k = Some (HKeyMap own proto)"
    "lookup h rs = Some (HRules rules)" "lookup h i = Some (HIdle en af iv acts)"
    "lookup h acts = Some (HEntries entries)"
    "cloneKeyMapEntries (h @ [HKeyMap [] None]) (length h) own = Some h2"
    "cloneRuleList h2 rules = Some (h3, rules')"
    "cloneEntryList (h3 @ [HRules rules']) entries = Some (h5, entries')"
    "h' = h5 @ [HEntries entries', HIdle en af iv (length h5),
                HConfig (length h) (length h3) (Suc (length h5))]"
    "a' = Suc (Suc (length h5))"
proof -
  from assms obtain k rs i where l: "lookup h a = Some (HConfig k rs i)"
    by (cases "lookup h a") (auto simp add: cloneMotionConfigAt_def split: hobj.splits)
  from assms l obtain own proto where lk: "lookup h k = Some (HKeyMap own proto)"
    by (cases "lookup h k") (auto simp add: cloneMotionConfigAt_def split: hobj.splits)
  from assms l lk obtain rules where lr: "lookup h rs = Some (HRules rules)"
    by (cases "lookup h rs") (auto simp add: cloneMotionConfigAt_def split: hobj.splits)
  from assms l lk lr obtain en af iv acts where li: "lookup h i = Some (HIdle en af iv acts)"
    by (cases "lookup h i") (auto simp add: cloneMotionConfigAt_def split: hobj.splits)
  from assms l lk lr li obtain entries where la: "lookup h acts = Some (HEntries entries)"
    by (cases "lookup h acts") (auto simp add: cloneMotionConfigAt_def split: hobj.splits)
  note unf = cloneMotionConfigAt_def l lk lr li la alloc_def
  from assms obtain h2 where c1: "cloneKeyMapEntries (h @ [HKeyMap [] None]) (length h) own = Some h2"
    by (cases "cloneKeyMapEntries (h @ [HKeyMap [] None]) (length h) own") (auto simp add: unf)
  from assms c1 obtain h3 rules' where c2: "cloneRuleList h2 rules = Some (h3, rules')"
    by (cases "cloneRuleList h2 rules") (auto simp add: unf)
  from assms c1 c2 obtain h5 entries' where
    c3: "cloneEntryList (h3 @ [HRules rules']) entries = Some (h5, entries')"
    by (cases "cloneEntryList (h3 @ [HRules rules']) entries") (auto simp add: unf)
  from assms c1 c2 c3
  have "h' = h5 @ [HEntries entries', HIdle en af iv (length h5),
                   HConfig (length h) (length h3) (Suc (length h5))]"
    and "a' = Suc (Suc (length h5))"
    by (auto simp add: unf)
  with l lk lr li la c1 c2 c3 show ?thesis by (rule that)
qed

lemma cloneKeyMapEntries_length:
  "cloneKeyMapEntries h k es = Some h' \<Longrightarrow> length h \<le> length h'"
proof (induction es arbitrary: h)
  case Nil
  then show ?case by simp
next
  case (Cons e es)
  obtain input action where e: "e = (input, action)" by (cases e)
  from Cons.prems obtain h1 cloned where c: "cloneActionAt h action = Some (h1, cloned)"
    and r: "cloneKeyMapEntries (setKey h1 k input cloned) k es = Some h'"
    by (auto simp add: e split: option.splits)
  from c obtain x where h1: "h1 = h @ [HAction x]" by (rule cloneActionAt_Some)
  from Cons.IH [OF r] show ?case by (simp add: h1)
qed

lemma rulesFootprint_alloc:
  assumes "\<forall>r' \<in> set rules'. \<forall>b \<in> set (ruleFootprint h3 r'). n \<le> b \<and> b < length h3"
    "keeps (h3 @ [HRules rules']) h'" "n \<le> length h3"
  shows "\<forall>b \<in> set (rulesFootprint h' (length h3)). n \<le> b \<and> b < length h'"
proof -
  have k3: "keeps h3 h'"
    using keeps_append [of h3 "[HRules rules']"] assms(2) by (rule keeps_trans)
  have l: "lookup h' (length h3) = Some (HRules rules')"
    using assms(2) by (rule lookup_keeps) (simp add: lookup_def)
  have len: "length h3 < length h'"
    using keeps_length [OF assms(2)] by simp
  have "\<forall>r' \<in> set rules'. ruleFootprint h' r' = ruleFootprint h3 r'"
  proof
    fix r' assume r: "r' \<in> set rules'"
    with assms(1) have "r' < length h3" by (auto simp add: ruleFootprint_def)
    with k3 show "ruleFootprint h' r' = ruleFootprint h3 r'" by (rule ruleFootprint_keeps)
  qed
  then show ?thesis
    using assms(1,3) l len by (fastforce simp add: rulesFootprint_def)
qed

lemma idleFootprint_alloc:
  assumes "\<forall>e' \<in> set entries'. \<forall>b \<in> set (entryFootprint h5 e'). n \<le> b \<and> b < length h5"
    "n \<le> length h5"
  shows "\<forall>b \<in> set (idleFootprint (h5 @ [HEntries entries', HIdle en af iv (length h5), ob])
            (Suc (length h5))).
           n \<le> b \<and> b < length h5 + 3"
proof -
  let ?h = "h5 @ [HEntries entries', HIdle en af iv (length h5), ob]"
  have k: "keeps h5 ?h" by simp
  have "\<forall>e' \<in> set entries'. entryFootprint ?h e' = entryFootprint h5 e'"
  proof
    fix e' assume "e' \<in> set entries'"
    with assms(1) have "e' < length h5" by (auto simp add: entryFootprint_def)
    with k show "entryFootprint ?h e' = entryFootprint h5 e'" by (rule entryFootprint_keeps)
  qed
  then show ?thesis
    using assms by (fastforce simp add: idleFootprint_def lookup_def nth_append)
qed

text \<open>
  The clone shares no object with the original: the store keeps every object it held,
  and every object reachable from the clone is newly allocated.
\<close>

lemma cloneMotionConfigAt_fresh:
  assumes "cloneMotionConfigAt h a = Some (h', a')"
  shows "keeps h h' \<and> (\<forall>b \<in> set (footprint h' a'). length h \<le> b \<and> b < length h')"
proof -
  from assms obtain k rs i own proto rules en af iv acts entries h2 h3 rules' h5 entries' where
    c1: "cloneKeyMapEntries (h @ [HKeyMap [] None]) (length h) own = Some h2"
    and c2: "cloneRuleList h2 rules = Some (h3, rules')"
    and c3: "cloneEntryList (h3 @ [HRules rules']) entries = Some (h5, entries')"
    and h': "h' = h5 @ [HEntries entries', HIdle en af iv (length h5),
                        HConfig (length h) (length h3) (Suc (length h5))]"
    and a': "a' = Suc (Suc (length h5))"
    by (rule cloneMotionConfigAt_Some)
  let ?h1 = "h @ [HKeyMap [] None]"
  let ?h4 = "h3 @ [HRules rules']"
  have k01: "keeps h ?h1" by simp
  have k02: "keeps h h2" using c1 k01 by (rule cloneKeyMapEntries_keeps) simp
  have l12: "length ?h1 \<le> length h2" using c1 by (rule cloneKeyMapEntries_length)
  have p1: "\<exists>own proto. lookup ?h1 (length h) = Some (HKeyMap own proto)"
    by (simp add: lookup_def)
  have p2: "\<forall>b \<in> set (keyMapFootprint ?h1 (length h)). length h \<le> b \<and> b < length ?h1"
    by (simp add: keyMapFootprint_def lookup_def)
  have p3: "length h \<le> length ?h1" by simp
  from cloneKeyMapEntries_fresh [OF c1 p1 p2 p3]
  have f2: "\<forall>b \<in> set (keyMapFootprint h2 (length h)). length h \<le> b \<and> b < length h2"
    by blast
  from cloneRuleList_fresh [OF c2] have k23: "keeps h2 h3"
    and f3: "\<forall>r' \<in> set rules'. \<forall>b \<in> set (ruleFootprint h3 r'). length h2 \<le> b \<and> b < length h3"
    by simp_all
  from cloneEntryList_fresh [OF c3] have k45: "keeps ?h4 h5"
    and f5: "\<forall>e' \<in> set entries'. \<forall>b \<in> set (entryFootprint h5 e').
        length ?h4 \<le> b \<and> b < length h5"
    by simp_all
  have k5: "keeps h5 h'" by (simp add: h')
  have k34: "keeps h3 ?h4" by simp
  have k4': "keeps ?h4 h'" using k45 k5 by (rule keeps_trans)
  have k2': "keeps h2 h'" using k23 keeps_trans [OF k34 k4'] by (rule keeps_trans)
  have k0': "keeps h h'" using k02 k2' by (rule keeps_trans)
  have le: "length h < length h2" "length h2 \<le> length h3" "length h3 < length h5"
    "length h5 < length h'"
    using l12 keeps_length [OF k23] keeps_length [OF k45] by (simp_all add: h')
  have km: "\<forall>b \<in> set (keyMapFootprint h' (length h)). length h \<le> b \<and> b < length h'"
    using f2 keyMapFootprint_keeps [OF k2' le(1)] le by fastforce
  have f3': "\<forall>r' \<in> set rules'. \<forall>b \<in> set (ruleFootprint h3 r'). length h \<le> b \<and> b < length h3"
    using f3 le by fastforce
  have ru: "\<forall>b \<in> set (rulesFootprint h' (length h3)). length h \<le> b \<and> b < length h'"
    using f3' k4' by (rule rulesFootprint_alloc) (use le in simp)
  have f5': "\<forall>e' \<in> set entries'. \<forall>b \<in> set (entryFootprint h5 e'). length h \<le> b \<and> b < length h5"
    using f5 le by fastforce
  have idl: "\<forall>b \<in> set (idleFootprint h' (Suc (length h5))). length h \<le> b \<and> b < length h'"
    using idleFootprint_alloc [OF f5', of en af iv "HConfig (length h) (length h3) (Suc (length h5))"]
      le by (fastforce simp add: h')
  have "footprint h' a' = a' # keyMapFootprint h' (length h) @ rulesFootprint h' (length h3)
      @ idleFootprint h' (Suc (length h5))"
    by (simp add: footprint_def a' h' lookup_def nth_append)
  with km ru idl le k0' show ?thesis
    by (auto simp add: a' h')
qed

lemma footprint_bound:
  assumes "readConfig h a = Some c"
  shows "a < length h"
  using assms by (auto simp add: readConfig_def lookup_def split: if_splits)

text \<open>
  The clone stands for the same configuration as the original when the key map has no
  own key \<open>__proto__\<close> (the own keys of an object are distinct).
\<close>

lemma cloneMotionConfigAt_read:
  assumes "readConfig h a = Some c" "distinct (map fst (keyMap c))"
    "''__proto__'' \<notin> set (map fst (keyMap c))"
  shows "\<exists>h' a'. cloneMotionConfigAt h a = Some (h', a') \<and> readConfig h' a' = Some c"
proof -
  from assms(1) obtain k rs i where l: "lookup h a = Some (HConfig k rs i)"
    and km: "readKeyMap h k = Some (keyMap c)" and r: "readRules h rs = Some (comboRules c)"
    and idl: "readIdle h i = Some (idle c)"
    by (rule readConfig_parts)
  from km obtain own proto where lk: "lookup h k = Some (HKeyMap own proto)"
    and b: "readBindings h own = Some (keyMap c)"
    by (auto simp add: readKeyMap_def split: option.splits hobj.splits)
  from r obtain rules where lr: "lookup h rs = Some (HRules rules)"
    and rl: "readRuleList h rules = Some (comboRules c)"
    by (auto simp add: readRules_def split: option.splits hobj.splits)
  from idl obtain en af iv acts entries xs where li: "lookup h i = Some (HIdle en af iv acts)"
    and la: "lookup h acts = Some (HEntries entries)" and el: "readEntryList h entries = Some xs"
    and ic: "idle c = \<lparr>enabled = en, afterMs = af, intervalMs = iv, actions = xs\<rparr>"
    by (auto simp add: readIdle_def split: option.splits hobj.splits)
  let ?h1 = "h @ [HKeyMap [] None]"
  have keys: "map fst own = map fst (keyMap c)"
    using readBindings_keys [OF b] by simp
  have "\<exists>h2 own'. cloneKeyMapEntries ?h1 (length h) own = Some h2
      \<and> lookup h2 (length h) = Some (HKeyMap own' None)
      \<and> readBindings h2 own' = Some ([] @ keyMap c)"
  proof (rule cloneKeyMapEntries_read)
    show "lookup ?h1 (length h) = Some (HKeyMap [] None)" by (simp add: lookup_def)
    show "readBindings ?h1 [] = Some []" by simp
    show "readBindings ?h1 own = Some (keyMap c)"
      using _ b by (rule readBindings_keeps) simp
    show "distinct (map fst own)" "''__proto__'' \<notin> set (map fst own)"
      using assms(2,3) by (simp_all add: keys)
    show "set (map fst []) \<inter> set (map fst own) = {}" by simp
  qed
  then obtain h2 own' where c1: "cloneKeyMapEntries ?h1 (length h) own = Some h2"
    and l2: "lookup h2 (length h) = Some (HKeyMap own' None)"
    and b2: "readBindings h2 own' = Some (keyMap c)"
    by auto
  have k02: "keeps h h2" using c1 keeps_append [of h "[HKeyMap [] None]"]
    by (rule cloneKeyMapEntries_keeps) simp
  from cloneRuleList_read [OF readRuleList_keeps [OF k02 rl]] obtain h3 rules' where
    c2: "cloneRuleList h2 rules = Some (h3, rules')"
    and r3: "readRuleList h3 rules' = Some (comboRules c)"
    by blast
  from cloneRuleList_fresh [OF c2] have k23: "keeps h2 h3" by simp
  let ?h4 = "h3 @ [HRules rules']"
  have k34: "keeps h3 ?h4" by simp
  have k04: "keeps h ?h4" using k02 keeps_trans [OF k23 k34] by (rule keeps_trans)
  from cloneEntryList_read [OF readEntryList_keeps [OF k04 el]] obtain h5 entries' where
    c3: "cloneEntryList ?h4 entries = Some (h5, entries')"
    and e5: "readEntryList h5 entries' = Some xs"
    by blast
  from cloneEntryList_fresh [OF c3] have k45: "keeps ?h4 h5" by simp
  let ?h' = "h5 @ [HEntries entries', HIdle en af iv (length h5),
                   HConfig (length h) (length h3) (Suc (length h5))]"
  have k5: "keeps h5 ?h'" by simp
  have k4: "keeps ?h4 ?h'" using k45 k5 by (rule keeps_trans)
  have k2: "keeps h2 ?h'" using k23 keeps_trans [OF k34 k4] by (rule keeps_trans)
  have clone: "cloneMotionConfigAt h a = Some (?h', Suc (Suc (length h5)))"
    using l lk lr li la c1 c2 c3 by (simp add: cloneMotionConfigAt_def alloc_def)
  have "readKeyMap h2 (length h) = Some (keyMap c)"
    using l2 b2 by (simp add: readKeyMap_def)
  then have rk: "readKeyMap ?h' (length h) = Some (keyMap c)"
    using k2 by (rule readKeyMap_keeps [rotated])
  have "readRules ?h4 (length h3) = Some (comboRules c)"
    using readRuleList_keeps [OF k34 r3] by (simp add: readRules_def lookup_def)
  then have rr: "readRules ?h' (length h3) = Some (comboRules c)"
    using k4 by (rule readRules_keeps [rotated])
  have ri: "readIdle ?h' (Suc (length h5)) = Some (idle c)"
    using readEntryList_keeps [OF k5 e5] by (simp add: readIdle_def lookup_def nth_append ic)
  have "readConfig ?h' (Suc (Suc (length h5))) = Some c"
    using rk rr ri by (cases c) (simp add: readConfig_def lookup_def nth_append)
  with clone show ?thesis by blast
qed

text \<open>
  Overwriting any object of the clone leaves the original configuration as it was.
\<close>

lemma cloneMotionConfigAt_independent:
  assumes "readConfig h a = Some c" "cloneMotionConfigAt h a = Some (h', a')"
    "b \<in> set (footprint h' a')"
  shows "readConfig (h'[b := ob]) a = Some c"
proof -
  from cloneMotionConfigAt_fresh [OF assms(2)] assms(3)
  have "keeps h h'" "length h \<le> b" by auto
  then have "keeps h (h'[b := ob])" by (rule keeps_update)
  then show ?thesis using assms(1) by (rule readConfig_keeps)
qed

text \<open>
  A key map with the own key \<open>__proto__\<close> is not cloned entry for entry. The
  configuration in \<open>protoStore\<close> has the key-map entries \<open>KeyA\<close> and \<open>__proto__\<close>; in its
  clone the assignment \<open>keyMap[input] = cloneAction(action)\<close> for the input \<open>__proto__\<close>
  has set the prototype of the new key map and added no entry. The validator does not
  yield such a key map (\<open>parseKeyMap\<close> assigns its keys the same way), and the default
  configuration has none.
\<close>

lemma protoStore_clone:
  "map_option keyMap (readConfig protoStore 8)
     = Some [(''KeyA'', MotionAction ''tap_left'' None None None),
             (''__proto__'', MotionAction ''wave'' None None None)]
   \<and> (case cloneMotionConfigAt protoStore 8 of
        Some (h', a') \<Rightarrow> map_option keyMap (readConfig h' a')
      | None \<Rightarrow> None)
       = Some [(''KeyA'', MotionAction ''tap_left'' None None None)]"
  by (simp add: protoStore_def cloneMotionConfigAt_def lookup_def alloc_def cloneActionAt_def
      setKey_def cloneEntryAt_def readConfig_def readKeyMap_def readAction_def
      readRules_def readIdle_def readEntry_def nth_append)

text \<open>
  Every configuration the validator yields, and the default configuration, has distinct
  keys and no key \<open>__proto__\<close> in its key map.
\<close>

lemma wfConfig_keys:
  assumes "wfConfig c"
  shows "distinct (map fst (keyMap c))" and "''__proto__'' \<notin> set (map fst (keyMap c))"
  using assms
  by (auto simp add: wfConfig_def wfKeyMap_def wfBinding_def list_all_iff)

lemma readConfig_sampleStore: "readConfig sampleStore 11 = Some sampleConfig"
  by (simp add: sampleStore_def sampleConfig_def readConfig_def readKeyMap_def readRules_def
      readRule_def readIdle_def readEntry_def readAction_def lookup_def)

text \<open>
  Claim C8. \<open>cloneMotionConfig\<close> is a deep clone. For every configuration held in the
  store (its key map has distinct own keys, and not the key \<open>__proto__\<close>) the call
  returns, and the clone stands for the same configuration as the original: it is
  structurally equal. The original is as it was. Every object of the clone (the
  configuration, its key map and the actions bound there, the list of combo rules, each
  rule with its sequence and its action, the idle policy, its list of entries, each entry
  and its action) is newly allocated, so that none is shared with the original; and
  overwriting any of them with any object whatever leaves the original configuration
  unchanged.
\<close>

theorem cloneMotionConfig_deep_clone:
  assumes "readConfig h a = Some c" "distinct (map fst (keyMap c))"
    "''__proto__'' \<notin> set (map fst (keyMap c))"
  shows "case cloneMotionConfigAt h a of
           None \<Rightarrow> False
         | Some (h', a') \<Rightarrow>
             readConfig h' a' = Some c
             \<and> readConfig h' a = Some c
             \<and> (\<forall>b \<in> set (footprint h' a').
                  length h \<le> b \<and> b < length h'
                  \<and> (\<forall>ob. readConfig (h'[b := ob]) a = Some c))"
proof -
  from cloneMotionConfigAt_read [OF assms]
  obtain h' a' where cl: "cloneMotionConfigAt h a = Some (h', a')"
    and rd: "readConfig h' a' = Some c"
    by blast
  from cloneMotionConfigAt_fresh [OF cl]
  have kp: "keeps h h'"
    and fr: "\<forall>b \<in> set (footprint h' a'). length h \<le> b \<and> b < length h'"
    by simp_all
  from kp assms(1) have same: "readConfig h' a = Some c"
    by (rule readConfig_keeps)
  have ind: "\<forall>b \<in> set (footprint h' a'). \<forall>ob. readConfig (h'[b := ob]) a = Some c"
    using cloneMotionConfigAt_independent [OF assms(1) cl] by blast
  show ?thesis
    using cl rd same fr ind by simp
qed

theorem cloneMotionConfig_deep_clone_witness:
  "readConfig sampleStore 11 = Some sampleConfig
   \<and> (case cloneMotionConfigAt sampleStore 11 of
        None \<Rightarrow> False
      | Some (h', a') \<Rightarrow>
          readConfig h' a' = Some sampleConfig
          \<and> readConfig h' 11 = Some sampleConfig
          \<and> (\<forall>b \<in> set (footprint h' a').
               length sampleStore \<le> b \<and> b < length h'
               \<and> (\<forall>ob. readConfig (h'[b := ob]) 11 = Some sampleConfig)))"
  using cloneMotionConfig_deep_clone [of sampleStore 11 sampleConfig]
  by (simp add: readConfig_sampleStore) (simp add: sampleConfig_def)

end
